theory Spec2Isabelle
  imports Complex_Main "HOL-Library.Multiset"
begin

section \<open>Data model of the clustering engine\<close>

text \<open>
  The engine of \<^verbatim>\<open>clustering.js\<close> works on JavaScript numbers and on
  \<^verbatim>\<open>Float32Array\<close> embeddings. Numbers are modelled as exact reals, an embedding
  as a list of reals. Two things of the source are therefore outside the model: rounding,
  and \<^verbatim>\<open>NaN\<close>, which the source can only meet when a vector is read beyond its
  length (all embeddings of one run have the dimension of the embedding model, 384).
  A \<^verbatim>\<open>null\<close> centroid is \<open>None\<close>; reading a property of \<^verbatim>\<open>null\<close> or
  \<^verbatim>\<open>undefined\<close> raises a \<^verbatim>\<open>TypeError\<close>. The other error of the model is the
  rejection of \<^verbatim>\<open>pipeline\<close>, the loader of the embedding model.
\<close>

type_synonym vec = "real list"

datatype error = TypeError | ModelLoadError

record config =
  CONTENT_SIMILARITY_THRESHOLD :: real
  DOMAIN_AFFINITY_BOOST :: real
  URL_PATH_BOOST :: real
  MERGE_SIMILARITY_THRESHOLD :: real
  FORCED_MERGE_MULTIPLIER :: real
  SINGLETON_ABSORPTION_THRESHOLD :: real
  SINGLETON_CLUSTER_THRESHOLD :: real
  MIN_ORPHANS_FOR_MISC :: nat
  PIXELS_PER_GROUP :: real
  MIN_GROUPS :: int
  MAX_GROUPS :: int

text \<open>The values the constructor of \<^verbatim>\<open>ClusteringEngine\<close> writes into \<^verbatim>\<open>this.config\<close>.\<close>

definition default_config :: config where
  "default_config =
     \<lparr>CONTENT_SIMILARITY_THRESHOLD = 0.38,
      DOMAIN_AFFINITY_BOOST = 0.15,
      URL_PATH_BOOST = 0.08,
      MERGE_SIMILARITY_THRESHOLD = 0.30,
      FORCED_MERGE_MULTIPLIER = 1.5,
      SINGLETON_ABSORPTION_THRESHOLD = 0.25,
      SINGLETON_CLUSTER_THRESHOLD = 0.33,
      MIN_ORPHANS_FOR_MISC = 3,
      PIXELS_PER_GROUP = 130,
      MIN_GROUPS = 2,
      MAX_GROUPS = 10\<rparr>"

text \<open>A browser tab as the engine reads it: \<^verbatim>\<open>tab.id\<close>, \<^verbatim>\<open>tab.url\<close>, \<^verbatim>\<open>tab.title\<close>.\<close>

record tab =
  tab_id :: int
  url :: string
  title :: string

text \<open>
  The object \<^verbatim>\<open>parseUrl\<close> returns; \<^verbatim>\<open>extractAndEnrichTabs\<close> copies its three fields
  beside \<^verbatim>\<open>tab\<close> and \<^verbatim>\<open>content\<close>, and \<^verbatim>\<open>generateEmbeddings\<close> spreads that object
  and adds \<^verbatim>\<open>embedding\<close>.
\<close>

record urlParts =
  domain :: string
  baseDomain :: string
  pathTokens :: "string list"

record enrichedTab = urlParts +
  tab :: tab
  content :: string

record tabVector = enrichedTab +
  embedding :: vec

text \<open>
  A cluster object. \<^verbatim>\<open>domains\<close> is a JavaScript \<^verbatim>\<open>Set\<close>; only membership is
  read from it by the functions modelled here. \<^verbatim>\<open>isMisc\<close> is set by
  \<^verbatim>\<open>createMiscCluster\<close> only and is absent (falsy) elsewhere.
\<close>

record cluster =
  indices :: "nat list"
  items :: "tabVector list"
  embeddings :: "vec list"
  domains :: "string set"
  centroid :: "vec option"
  isMisc :: bool

record clusterResult =
  name :: string
  color :: string
  tabIds :: "int list"

section \<open>URL featurizer\<close>

text \<open>
  \<^verbatim>\<open>String.prototype.split\<close> with a separator that matches single characters: the pieces
  between separators, empty pieces included; the empty string gives one empty piece.
\<close>

fun split_chars :: "(char \<Rightarrow> bool) \<Rightarrow> string \<Rightarrow> string list" where
  "split_chars sep [] = [[]]"
| "split_chars sep (c # cs) =
     (if sep c then [] # split_chars sep cs
      else (case split_chars sep cs of
              [] \<Rightarrow> [[c]]
            | t # ts \<Rightarrow> (c # t) # ts))"

text \<open>\<^verbatim>\<open>Array.prototype.join\<close>.\<close>

fun join :: "string \<Rightarrow> string list \<Rightarrow> string" where
  "join sep [] = []"
| "join sep [x] = x"
| "join sep (x # y # ys) = x @ sep @ join sep (y # ys)"

text \<open>\<^verbatim>\<open>hostname.replace(/^www\./, '')\<close>: one replacement, at the start only.\<close>

definition strip_www :: "string \<Rightarrow> string" where
  "strip_www h = (if take 4 h = ''www.'' then drop 4 h else h)"

text \<open>\<^verbatim>\<open>parts.slice(-2)\<close>.\<close>

definition slice_last2 :: "'a list \<Rightarrow> 'a list" where
  "slice_last2 xs = drop (length xs - 2) xs"

text \<open>
  \<^verbatim>\<open>new URL(urlString)\<close> belongs to the browser, not to the repository: it is a
  parameter that gives \<^verbatim>\<open>(hostname, pathname)\<close>, or \<open>None\<close> where the constructor throws.
\<close>

type_synonym url_parser = "string \<Rightarrow> (string \<times> string) option"

definition parseUrl :: "url_parser \<Rightarrow> string \<Rightarrow> urlParts" where
  "parseUrl URL urlString =
     (case URL urlString of
        None \<Rightarrow> \<lparr>domain = '''', baseDomain = '''', pathTokens = []\<rparr>
      | Some (host, pathname) \<Rightarrow>
          (let hostname = strip_www host;
               parts = split_chars (\<lambda>c. c = CHR ''.'') hostname
           in \<lparr>domain = hostname,
               baseDomain = (if length parts \<ge> 2 then join ''.'' (slice_last2 parts) else hostname),
               pathTokens =
                 take 5 (filter (\<lambda>t. length t > 2)
                   (split_chars (\<lambda>c. c = CHR ''/'' \<or> c = CHR ''-'' \<or> c = CHR ''_'') pathname))\<rparr>))"

section \<open>Similarity\<close>

text \<open>
  \<^verbatim>\<open>cosineSimilarity\<close>: the loop runs over the indices of \<open>v1\<close>. Where \<open>v2\<close> is
  shorter the source reads \<^verbatim>\<open>undefined\<close> and the sum is \<^verbatim>\<open>NaN\<close>; the model is
  the source for \<open>length v1 \<le> length v2\<close>.
\<close>

definition cosineSimilarity :: "vec \<Rightarrow> vec \<Rightarrow> real" where
  "cosineSimilarity v1 v2 = fold (\<lambda>i dot. dot + v1 ! i * v2 ! i) [0..<length v1] 0"

definition computePairwiseSimilarity :: "config \<Rightarrow> tabVector \<Rightarrow> tabVector \<Rightarrow> real" where
  "computePairwiseSimilarity cfg tab1 tab2 =
     (let semanticSim = cosineSimilarity (embedding tab1) (embedding tab2);
          domainBoost =
            (if domain tab1 = domain tab2 then DOMAIN_AFFINITY_BOOST cfg
             else if baseDomain tab1 = baseDomain tab2 then DOMAIN_AFFINITY_BOOST cfg * 0.5
             else 0);
          commonTokens = filter (\<lambda>t. t \<in> set (pathTokens tab2)) (pathTokens tab1);
          pathBoost =
            (if length commonTokens > 0
             then URL_PATH_BOOST cfg *
                    min 1 (real (length commonTokens) /
                           real (max (max (length (pathTokens tab1)) (length (pathTokens tab2))) 1))
             else 0)
      in semanticSim + domainBoost + pathBoost)"

text \<open>
  \<^verbatim>\<open>buildSimilarityMatrix\<close>: the two loops fill the cells above the diagonal with the score
  of \<open>(tabVectors[i], tabVectors[j])\<close>, \<open>i < j\<close>, copy each score to the mirrored cell and
  leave the diagonal at 0. The matrix below is the array the loops leave behind.
\<close>

definition buildSimilarityMatrix :: "config \<Rightarrow> tabVector list \<Rightarrow> real list list" where
  "buildSimilarityMatrix cfg tabVectors =
     (let n = length tabVectors
      in map (\<lambda>i. map (\<lambda>j.
            if i < j then computePairwiseSimilarity cfg (tabVectors ! i) (tabVectors ! j)
            else if j < i then computePairwiseSimilarity cfg (tabVectors ! j) (tabVectors ! i)
            else 0) [0..<n]) [0..<n])"

section \<open>Agglomerative clustering\<close>

text \<open>The cluster object built for each tab at the start of \<^verbatim>\<open>agglomerativeClustering\<close>.\<close>

definition initialCluster :: "tabVector \<Rightarrow> nat \<Rightarrow> cluster" where
  "initialCluster tv idx =
     \<lparr>indices = [idx], items = [tv], embeddings = [embedding tv],
      domains = {domain tv}, centroid = Some (embedding tv), isMisc = False\<rparr>"

text \<open>
  \<^verbatim>\<open>computeCentroid\<close>: \<^verbatim>\<open>null\<close> for no embedding, the embedding itself for one, and
  otherwise the component-wise sum over the dimension of the first embedding, divided by
  its magnitude when that is positive.
\<close>

definition computeCentroid :: "vec list \<Rightarrow> vec option" where
  "computeCentroid embs =
     (case embs of
        [] \<Rightarrow> None
      | [e] \<Rightarrow> Some e
      | e0 # _ \<Rightarrow>
          (let dim = length e0;
               summed = fold (\<lambda>emb c. map (\<lambda>i. c ! i + emb ! i) [0..<dim]) embs (replicate dim 0);
               mag = sqrt (fold (\<lambda>i m. m + summed ! i * summed ! i) [0..<dim] 0)
           in Some (if mag > 0 then map (\<lambda>i. summed ! i / mag) [0..<dim] else summed)))"

definition mergeClusters :: "cluster \<Rightarrow> cluster \<Rightarrow> cluster" where
  "mergeClusters c1 c2 =
     (let embs = embeddings c1 @ embeddings c2
      in \<lparr>indices = indices c1 @ indices c2,
          items = items c1 @ items c2,
          embeddings = embs,
          domains = domains c1 \<union> domains c2,
          centroid = computeCentroid embs,
          isMisc = False\<rparr>)"

text \<open>
  The body of the two inner loops of \<^verbatim>\<open>findBestMerge\<close>: the mean of the matrix entries
  over the pairs of members of two clusters (0 when there is no pair).
\<close>

definition averageLinkage :: "real list list \<Rightarrow> cluster \<Rightarrow> cluster \<Rightarrow> real" where
  "averageLinkage originalMatrix ci cj =
     (let totalSim =
            fold (\<lambda>idx1 t. fold (\<lambda>idx2 t'. t' + originalMatrix ! idx1 ! idx2) (indices cj) t)
              (indices ci) 0;
          count = length (indices ci) * length (indices cj)
      in if count > 0 then totalSim / real count else 0)"

text \<open>The pairs \<open>(i, j)\<close>, \<open>i < j < k\<close>, in the order the two outer loops visit them.\<close>

definition scanPairs :: "nat \<Rightarrow> (nat \<times> nat) list" where
  "scanPairs k = concat (map (\<lambda>i. map (\<lambda>j. (i, j)) [i + 1..<k]) [0..<k])"

text \<open>
  \<^verbatim>\<open>findBestMerge\<close>. The running best \<open>None\<close> is the initial
  \<^verbatim>\<open>{i: -1, j: -1, similarity: -Infinity}\<close>, which any real average exceeds;
  \<open>considerPair\<close> is the body of the loop over \<open>j\<close>.
\<close>

definition considerPair ::
  "real list list \<Rightarrow> cluster list \<Rightarrow> nat \<times> nat \<Rightarrow> (nat \<times> nat \<times> real) option \<Rightarrow> (nat \<times> nat \<times> real) option" where
  "considerPair originalMatrix clusters =
     (\<lambda>(i, j) best.
        (let avgSim = averageLinkage originalMatrix (clusters ! i) (clusters ! j)
         in case best of
              None \<Rightarrow> Some (i, j, avgSim)
            | Some (bestI, bestJ, bestSim) \<Rightarrow>
                if avgSim > bestSim then Some (i, j, avgSim) else best))"

definition findBestMerge :: "cluster list \<Rightarrow> real list list \<Rightarrow> (nat \<times> nat \<times> real) option" where
  "findBestMerge clusters originalMatrix =
     fold (considerPair originalMatrix clusters) (scanPairs (length clusters)) None"

text \<open>\<^verbatim>\<open>clusters.filter((_, idx) => idx !== i && idx !== j)\<close>.\<close>

definition removePair :: "nat \<Rightarrow> nat \<Rightarrow> 'a list \<Rightarrow> 'a list" where
  "removePair i j xs =
     map snd (filter (\<lambda>(idx, _). idx \<noteq> i \<and> idx \<noteq> j) (zip [0..<length xs] xs))"

definition computeAdaptiveThreshold :: "config \<Rightarrow> nat \<Rightarrow> int \<Rightarrow> real" where
  "computeAdaptiveThreshold cfg tabCount targetGroups =
     (let base = CONTENT_SIMILARITY_THRESHOLD cfg;
          scaleFactor = max 0.85 (1 - (real tabCount - 10) * 0.01)
      in base * scaleFactor)"

text \<open>
  One pass through the body of the \<^verbatim>\<open>while\<close> loop of \<^verbatim>\<open>agglomerativeClustering\<close>:
  \<open>Some\<close> of the new cluster list when a merge is made, \<open>None\<close> when the loop ends (its
  condition fails, or the \<^verbatim>\<open>break\<close> is taken; \<^verbatim>\<open>-Infinity\<close> is below every threshold).
\<close>

definition mergeStep :: "real list list \<Rightarrow> int \<Rightarrow> real \<Rightarrow> cluster list \<Rightarrow> cluster list option" where
  "mergeStep similarityMatrix targetGroups adaptiveThreshold clusters =
     (if int (length clusters) > targetGroups then
        (case findBestMerge clusters similarityMatrix of
           None \<Rightarrow> None
         | Some (i, j, similarity) \<Rightarrow>
             if similarity < adaptiveThreshold then None
             else Some (removePair i j clusters @ [mergeClusters (clusters ! i) (clusters ! j)]))
      else None)"

text \<open>
  The loop ends: every merge takes two clusters out of the list and puts one in.
\<close>

lemma zip_upt_nth: "zip [0..<length xs] xs = map (\<lambda>k. (k, xs ! k)) [0..<length xs]"
  by (rule nth_equalityI) auto

lemma removePair_eq:
  "removePair i j xs = map ((!) xs) (filter (\<lambda>k. k \<noteq> i \<and> k \<noteq> j) [0..<length xs])"
  unfolding removePair_def zip_upt_nth by (simp add: filter_map comp_def)

lemma mset_removePair:
  assumes "i < j" "j < length xs"
  shows "mset (removePair i j xs) + {#xs ! i, xs ! j#} = mset xs"
proof -
  let ?n = "length xs"
  let ?P = "\<lambda>k. k \<noteq> i \<and> k \<noteq> j"
  have "filter_mset (\<lambda>k. \<not> ?P k) (mset [0..<?n]) = mset_set {k \<in> {0..<?n}. \<not> ?P k}"
    by (simp add: mset_upt)
  also have "{k \<in> {0..<?n}. \<not> ?P k} = {i, j}" using assms by auto
  also have "mset_set {i, j} = {#i, j#}" using assms by simp
  finally have neg: "filter_mset (\<lambda>k. \<not> ?P k) (mset [0..<?n]) = {#i, j#}" .
  have "mset xs = image_mset ((!) xs) (mset [0..<?n])"
    by (metis map_nth mset_map)
  also have "mset [0..<?n] =
      filter_mset ?P (mset [0..<?n]) + filter_mset (\<lambda>k. \<not> ?P k) (mset [0..<?n])"
    by (rule multiset_partition)
  finally show ?thesis unfolding neg removePair_eq by simp
qed

lemma length_removePair:
  assumes "i < j" "j < length xs"
  shows "Suc (Suc (length (removePair i j xs))) = length xs"
proof -
  have "size (mset (removePair i j xs) + {#xs ! i, xs ! j#}) = size (mset xs)"
    using mset_removePair[OF assms] by simp
  then show ?thesis by simp
qed

lemma scanPairs_iff: "(i, j) \<in> set (scanPairs k) \<longleftrightarrow> i < j \<and> j < k"
proof
  assume "(i, j) \<in> set (scanPairs k)"
  then show "i < j \<and> j < k" by (auto simp: scanPairs_def)
next
  assume h: "i < j \<and> j < k"
  then have "i \<in> {0..<k}" "(i, j) \<in> Pair i ` {Suc i..<k}" by auto
  then show "(i, j) \<in> set (scanPairs k)" unfolding scanPairs_def by auto
qed

lemma fold_considerPair_Some:
  "fold (considerPair M cs) ps b = Some (i, j, s) \<Longrightarrow>
     b = Some (i, j, s) \<or> ((i, j) \<in> set ps \<and> s = averageLinkage M (cs ! i) (cs ! j))"
proof (induction ps arbitrary: b)
  case Nil
  then show ?case by simp
next
  case (Cons p ps)
  obtain a c where p: "p = (a, c)" by (cases p)
  from Cons.prems have "fold (considerPair M cs) ps (considerPair M cs p b) = Some (i, j, s)"
    by simp
  from Cons.IH[OF this] show ?case
    by (auto simp: considerPair_def p Let_def split: option.splits if_splits prod.splits)
qed

lemma fold_considerPair_max:
  "fold (considerPair M cs) ps b = Some (i, j, s) \<Longrightarrow>
     (\<forall>(a, c) \<in> set ps. averageLinkage M (cs ! a) (cs ! c) \<le> s) \<and>
     (\<forall>bi bj bs. b = Some (bi, bj, bs) \<longrightarrow> bs \<le> s)"
proof (induction ps arbitrary: b)
  case Nil
  then show ?case by simp
next
  case (Cons p ps)
  obtain a c where p: "p = (a, c)" by (cases p)
  from Cons.prems have "fold (considerPair M cs) ps (considerPair M cs p b) = Some (i, j, s)"
    by simp
  from Cons.IH[OF this] show ?case
    by (fastforce simp: considerPair_def p Let_def split: option.splits if_splits prod.splits)
qed

lemma fold_considerPair_None: "fold (considerPair M cs) ps b = None \<longleftrightarrow> ps = [] \<and> b = None"
  by (induction ps arbitrary: b)
     (auto simp: considerPair_def Let_def split: option.splits prod.splits)

lemma findBestMerge_Some:
  assumes "findBestMerge cs M = Some (i, j, s)"
  shows "i < j" "j < length cs" "s = averageLinkage M (cs ! i) (cs ! j)"
    "\<And>a c. a < c \<Longrightarrow> c < length cs \<Longrightarrow> averageLinkage M (cs ! a) (cs ! c) \<le> s"
proof -
  from assms have f: "fold (considerPair M cs) (scanPairs (length cs)) None = Some (i, j, s)"
    by (simp add: findBestMerge_def)
  from fold_considerPair_Some[OF f]
  have "(i, j) \<in> set (scanPairs (length cs))" and s: "s = averageLinkage M (cs ! i) (cs ! j)"
    by auto
  then show "i < j" "j < length cs" by (simp_all add: scanPairs_iff)
  show "s = averageLinkage M (cs ! i) (cs ! j)" by (rule s)
  fix a c assume "a < c" "c < length cs"
  then have "(a, c) \<in> set (scanPairs (length cs))" by (simp add: scanPairs_iff)
  with fold_considerPair_max[OF f] show "averageLinkage M (cs ! a) (cs ! c) \<le> s" by auto
qed

lemma mergeStep_length:
  assumes "mergeStep M tg thr cs = Some cs'"
  shows "Suc (length cs') = length cs"
proof -
  from assms obtain i j s where f: "findBestMerge cs M = Some (i, j, s)"
    and cs': "cs' = removePair i j cs @ [mergeClusters (cs ! i) (cs ! j)]"
    by (auto simp: mergeStep_def split: if_splits option.splits)
  from findBestMerge_Some(1,2)[OF f] length_removePair[of i j cs] show ?thesis
    by (simp add: cs')
qed

text \<open>The \<^verbatim>\<open>while\<close> loop of \<^verbatim>\<open>agglomerativeClustering\<close>.\<close>

function mergeLoop :: "real list list \<Rightarrow> int \<Rightarrow> real \<Rightarrow> cluster list \<Rightarrow> cluster list" where
  "mergeLoop similarityMatrix targetGroups adaptiveThreshold clusters =
     (case mergeStep similarityMatrix targetGroups adaptiveThreshold clusters of
        None \<Rightarrow> clusters
      | Some clusters' \<Rightarrow> mergeLoop similarityMatrix targetGroups adaptiveThreshold clusters')"
  by pat_completeness auto
termination
proof (relation "measure (\<lambda>(M, tg, thr, cs). length cs)")
  show "wf (measure (\<lambda>(M, tg, thr, cs). length cs))" by simp
next
  fix M tg thr cs cs'
  assume "mergeStep M tg thr cs = Some cs'"
  from mergeStep_length[OF this]
  show "((M, tg, thr, cs'), (M, tg, thr, cs)) \<in> measure (\<lambda>(M, tg, thr, cs). length cs)"
    by simp
qed

declare mergeLoop.simps [simp del]

definition agglomerativeClustering ::
  "config \<Rightarrow> tabVector list \<Rightarrow> real list list \<Rightarrow> int \<Rightarrow> cluster list" where
  "agglomerativeClustering cfg tabVectors similarityMatrix targetGroups =
     (let n = length tabVectors;
          clusters = map (\<lambda>(idx, tv). initialCluster tv idx) (zip [0..<n] tabVectors);
          adaptiveThreshold = computeAdaptiveThreshold cfg n targetGroups
      in mergeLoop similarityMatrix targetGroups adaptiveThreshold clusters)"

definition calculateGroupCapacity :: "config \<Rightarrow> real \<Rightarrow> nat \<Rightarrow> int" where
  "calculateGroupCapacity cfg screenWidth tabCount =
     (let estimated = \<lfloor>screenWidth / PIXELS_PER_GROUP cfg\<rfloor>;
          clamped = max (MIN_GROUPS cfg) (min (MAX_GROUPS cfg) estimated);
          maxForTabs = max 2 \<lceil>real tabCount / 2\<rceil>
      in min clamped maxForTabs)"

section \<open>Singleton consolidation\<close>

text \<open>
  \<^verbatim>\<open>absorbIntoCluster\<close> changes its target in place; the model returns the changed
  target, and the callers write it back at the position of the target in their list.
\<close>

definition absorbIntoCluster :: "cluster \<Rightarrow> cluster \<Rightarrow> cluster" where
  "absorbIntoCluster source target =
     (let embs = embeddings target @ embeddings source
      in target\<lparr>indices := indices target @ indices source,
                items := items target @ items source,
                embeddings := embs,
                domains := domains target \<union> domains source,
                centroid := computeCentroid embs\<rparr>)"

text \<open>\<^verbatim>\<open>cloneCluster\<close> copies five fields; the copy has no \<^verbatim>\<open>isMisc\<close>.\<close>

definition cloneCluster :: "cluster \<Rightarrow> cluster" where
  "cloneCluster c =
     \<lparr>indices = indices c, items = items c, embeddings = embeddings c,
      domains = domains c, centroid = centroid c, isMisc = False\<rparr>"

definition createMiscCluster :: "cluster list \<Rightarrow> cluster" where
  "createMiscCluster orphans =
     \<lparr>indices = concat (map indices orphans),
      items = concat (map items orphans),
      embeddings = concat (map embeddings orphans),
      domains = \<Union> (set (map domains orphans)),
      centroid = computeCentroid (concat (map embeddings orphans)),
      isMisc = True\<rparr>"

text \<open>
  \<^verbatim>\<open>cosineSimilarity\<close> applied to two centroids: \<^verbatim>\<open>v1.length\<close> of a \<^verbatim>\<open>null\<close> first
  argument raises, and so does \<^verbatim>\<open>v2[i]\<close> of a \<^verbatim>\<open>null\<close> second argument once the loop
  body runs.
\<close>

definition centroidSimilarity :: "vec option \<Rightarrow> vec option \<Rightarrow> error + real" where
  "centroidSimilarity c1 c2 =
     (case c1 of
        None \<Rightarrow> Inl TypeError
      | Some v1 \<Rightarrow>
          (case c2 of
             None \<Rightarrow> if v1 = [] then Inr 0 else Inl TypeError
           | Some v2 \<Rightarrow> Inr (cosineSimilarity v1 v2)))"

text \<open>
  The inner loop of \<^verbatim>\<open>clusterSingletonsTogether\<close>, from position \<open>k\<close> of the working
  list on: the best cluster so far is kept as its position in that list
  (\<open>None\<close> for \<^verbatim>\<open>null\<close>). \<^verbatim>\<open>singleton.items[0].domain\<close> raises when there is no item.
\<close>

fun bestClusterScan ::
  "config \<Rightarrow> cluster \<Rightarrow> cluster list \<Rightarrow> nat \<Rightarrow> nat option \<times> real \<Rightarrow> error + (nat option \<times> real)" where
  "bestClusterScan cfg singleton [] k best = Inr best"
| "bestClusterScan cfg singleton (cluster # rest) k (bestCluster, bestScore) =
     (case centroidSimilarity (centroid singleton) (centroid cluster) of
        Inl e \<Rightarrow> Inl e
      | Inr sim \<Rightarrow>
          (case items singleton of
             [] \<Rightarrow> Inl TypeError
           | item0 # _ \<Rightarrow>
               (let domainMatch = (domain item0 \<in> domains cluster);
                    score = sim + (if domainMatch then DOMAIN_AFFINITY_BOOST cfg else 0)
                in bestClusterScan cfg singleton rest (Suc k)
                     (if score > bestScore then (Some k, score) else (bestCluster, bestScore)))))"

text \<open>The outer loop of \<^verbatim>\<open>clusterSingletonsTogether\<close> over the remaining singletons.\<close>

fun clusterSingletonsLoop :: "config \<Rightarrow> cluster list \<Rightarrow> cluster list \<Rightarrow> error + cluster list" where
  "clusterSingletonsLoop cfg [] clusters = Inr clusters"
| "clusterSingletonsLoop cfg (singleton # rest) clusters =
     (case bestClusterScan cfg singleton clusters 0 (None, -1) of
        Inl e \<Rightarrow> Inl e
      | Inr (bestCluster, bestScore) \<Rightarrow>
          (case bestCluster of
             Some k \<Rightarrow>
               if bestScore \<ge> SINGLETON_CLUSTER_THRESHOLD cfg
               then clusterSingletonsLoop cfg rest
                      (clusters[k := absorbIntoCluster singleton (clusters ! k)])
               else clusterSingletonsLoop cfg rest (clusters @ [cloneCluster singleton])
           | None \<Rightarrow> clusterSingletonsLoop cfg rest (clusters @ [cloneCluster singleton])))"

definition clusterSingletonsTogether :: "config \<Rightarrow> cluster list \<Rightarrow> error + cluster list" where
  "clusterSingletonsTogether cfg singletons =
     (if length singletons \<le> 1 then Inr singletons
      else clusterSingletonsLoop cfg singletons [])"

text \<open>\<^verbatim>\<open>findClosestCluster\<close>, its loop from position \<open>k\<close> on.\<close>

fun closestScan ::
  "cluster \<Rightarrow> cluster list \<Rightarrow> nat \<Rightarrow> nat option \<times> real \<Rightarrow> error + (nat option \<times> real)" where
  "closestScan singleton [] k best = Inr best"
| "closestScan singleton (cluster # rest) k (bestCluster, bestSim) =
     (case centroidSimilarity (centroid singleton) (centroid cluster) of
        Inl e \<Rightarrow> Inl e
      | Inr sim \<Rightarrow>
          closestScan singleton rest (Suc k)
            (if sim > bestSim then (Some k, sim) else (bestCluster, bestSim)))"

definition findClosestCluster :: "cluster \<Rightarrow> cluster list \<Rightarrow> error + (nat option \<times> real)" where
  "findClosestCluster singleton clusters = closestScan singleton clusters 0 (None, -1)"

text \<open>
  Pass 2 of \<^verbatim>\<open>consolidateSingletons\<close>: the loop over the orphans, with the list of
  multi-item clusters and the true orphans collected so far.
\<close>

fun absorbOrphans ::
  "config \<Rightarrow> cluster list \<Rightarrow> cluster list \<Rightarrow> cluster list \<Rightarrow> error + (cluster list \<times> cluster list)" where
  "absorbOrphans cfg [] multiClusters finalOrphans = Inr (multiClusters, finalOrphans)"
| "absorbOrphans cfg (orphan # rest) multiClusters finalOrphans =
     (case findClosestCluster orphan multiClusters of
        Inl e \<Rightarrow> Inl e
      | Inr (cluster, similarity) \<Rightarrow>
          (case cluster of
             Some k \<Rightarrow>
               if similarity \<ge> SINGLETON_ABSORPTION_THRESHOLD cfg
               then absorbOrphans cfg rest
                      (multiClusters[k := absorbIntoCluster orphan (multiClusters ! k)]) finalOrphans
               else absorbOrphans cfg rest multiClusters (finalOrphans @ [orphan])
           | None \<Rightarrow> absorbOrphans cfg rest multiClusters (finalOrphans @ [orphan])))"

text \<open>Pass 3 of \<^verbatim>\<open>consolidateSingletons\<close>: what is returned for the true orphans.\<close>

definition disposeOrphans :: "config \<Rightarrow> cluster list \<Rightarrow> cluster list \<Rightarrow> int \<Rightarrow> cluster list" where
  "disposeOrphans cfg multiClusters finalOrphans groupCapacity =
     (if length finalOrphans = 0 then multiClusters
      else if int (length multiClusters + length finalOrphans) \<le> groupCapacity
      then multiClusters @ finalOrphans
      else if length finalOrphans \<ge> MIN_ORPHANS_FOR_MISC cfg
      then multiClusters @ [createMiscCluster finalOrphans]
      else multiClusters @ finalOrphans)"

text \<open>
  Passes 1 and 2: the multi-item clusters and the true orphans they leave, for a cluster
  list that has at least one singleton.
\<close>

definition consolidatePasses ::
  "config \<Rightarrow> cluster list \<Rightarrow> error + (cluster list \<times> cluster list)" where
  "consolidatePasses cfg clusters =
     (let singletons = filter (\<lambda>c. length (items c) = 1) clusters;
          multiClusters = filter (\<lambda>c. length (items c) > 1) clusters
      in case clusterSingletonsTogether cfg singletons of
           Inl e \<Rightarrow> Inl e
         | Inr singletonGroups \<Rightarrow>
             (let newMulti = filter (\<lambda>c. length (items c) > 1) singletonGroups;
                  orphans = filter (\<lambda>c. length (items c) = 1) singletonGroups
              in absorbOrphans cfg orphans (multiClusters @ newMulti) []))"

definition consolidateSingletons :: "config \<Rightarrow> cluster list \<Rightarrow> int \<Rightarrow> error + cluster list" where
  "consolidateSingletons cfg clusters groupCapacity =
     (if length (filter (\<lambda>c. length (items c) = 1) clusters) = 0 then Inr clusters
      else (case consolidatePasses cfg clusters of
              Inl e \<Rightarrow> Inl e
            | Inr (multiClusters, finalOrphans) \<Rightarrow>
                Inr (disposeOrphans cfg multiClusters finalOrphans groupCapacity)))"

section \<open>Output and entry point\<close>

text \<open>
  What the engine takes from outside the repository: the browser's \<^verbatim>\<open>URL\<close> constructor,
  the page content that \<^verbatim>\<open>chrome.scripting.executeScript\<close> delivers for a tab (the joined
  text, \<open>None\<close> when the injection fails or has no result), and what
  \<^verbatim>\<open>pipeline('feature-extraction', modelName)\<close> resolves to: the extractor, a function
  from a text to its embedding, or \<open>None\<close> when the model cannot be loaded and the call
  rejects. \<^verbatim>\<open>generateClusterName\<close> scores its candidates with the extractor and is taken
  as a function of the extractor and the cluster; no property below depends on the name
  it gives.
\<close>

record env =
  urlConstructor :: url_parser
  executeScript :: "tab \<Rightarrow> string option"
  pipeline :: "(string \<Rightarrow> vec) option"
  generateClusterName :: "(string \<Rightarrow> vec) \<Rightarrow> cluster \<Rightarrow> string"

text \<open>
  \<^verbatim>\<open>init\<close>: the engine holds its extractor in \<^verbatim>\<open>this.extractor\<close>, which is
  \<^verbatim>\<open>null\<close> (\<open>None\<close>) until a model has been loaded. \<^verbatim>\<open>init\<close> loads the model when
  there is none; its value here is the extractor the engine holds afterwards, or the
  error of the loader.
\<close>

definition init :: "env \<Rightarrow> (string \<Rightarrow> vec) option \<Rightarrow> error + (string \<Rightarrow> vec)" where
  "init e extractor =
     (case extractor of
        Some model \<Rightarrow> Inr model
      | None \<Rightarrow> (case pipeline e of None \<Rightarrow> Inl ModelLoadError | Some model \<Rightarrow> Inr model))"

definition getEmbedding :: "(string \<Rightarrow> vec) \<Rightarrow> string \<Rightarrow> vec" where
  "getEmbedding extractor text = extractor text"

definition enrichTab :: "env \<Rightarrow> tab \<Rightarrow> enrichedTab" where
  "enrichTab e t =
     (let u = parseUrl (urlConstructor e) (url t);
          scriptable = (url t \<noteq> [] \<and> take 9 (url t) \<noteq> ''chrome://'' \<and> take 7 (url t) \<noteq> ''edge://'');
          text = (if scriptable
                  then (case executeScript e t of None \<Rightarrow> title t | Some r \<Rightarrow> r)
                  else title t)
      in \<lparr>domain = domain u, baseDomain = baseDomain u, pathTokens = pathTokens u,
          tab = t, content = text\<rparr>)"

definition extractAndEnrichTabs :: "env \<Rightarrow> tab list \<Rightarrow> enrichedTab list" where
  "extractAndEnrichTabs e tabs = map (enrichTab e) tabs"

definition generateEmbeddings :: "(string \<Rightarrow> vec) \<Rightarrow> enrichedTab list \<Rightarrow> tabVector list" where
  "generateEmbeddings extractor enrichedTabs =
     map (\<lambda>item. \<lparr>domain = domain item, baseDomain = baseDomain item,
                  pathTokens = pathTokens item, tab = tab item, content = content item,
                  embedding = getEmbedding extractor (content item)\<rparr>) enrichedTabs"

definition colors :: "string list" where
  "colors = [''blue'', ''green'', ''yellow'', ''red'', ''pink'', ''purple'', ''cyan'',
             ''orange'', ''grey'']"

text \<open>
  The loop of \<^verbatim>\<open>generateClusterMetadata\<close> from position \<open>i\<close> of the cluster list on:
  a cluster of one item is skipped, and \<open>i\<close> counts the skipped clusters too.
\<close>

fun metadataFrom :: "(cluster \<Rightarrow> string) \<Rightarrow> nat \<Rightarrow> cluster list \<Rightarrow> clusterResult list" where
  "metadataFrom nameOf i [] = []"
| "metadataFrom nameOf i (cluster # rest) =
     (if length (items cluster) = 1 then metadataFrom nameOf (Suc i) rest
      else \<lparr>name = (if isMisc cluster then ''MISC'' else nameOf cluster),
            color = colors ! (i mod length colors),
            tabIds = map (\<lambda>item. tab_id (tab item)) (items cluster)\<rparr>
           # metadataFrom nameOf (Suc i) rest)"

definition generateClusterMetadata :: "(cluster \<Rightarrow> string) \<Rightarrow> cluster list \<Rightarrow> clusterResult list" where
  "generateClusterMetadata nameOf clusters = metadataFrom nameOf 0 clusters"

text \<open>
  \<^verbatim>\<open>clusterTabs\<close>, called on an engine whose \<^verbatim>\<open>this.extractor\<close> is \<open>extractor\<close>. It
  awaits \<^verbatim>\<open>init\<close> first, so a model that cannot be loaded rejects the call before the
  number of tabs is looked at.
\<close>

definition clusterTabs ::
  "env \<Rightarrow> config \<Rightarrow> (string \<Rightarrow> vec) option \<Rightarrow> tab list \<Rightarrow> real \<Rightarrow> error + clusterResult list" where
  "clusterTabs e cfg extractor tabs screenWidth =
     (case init e extractor of
        Inl err \<Rightarrow> Inl err
      | Inr model \<Rightarrow>
          if length tabs \<le> 2 then Inr []
          else
            (let enrichedTabs = extractAndEnrichTabs e tabs;
                 tabVectors = generateEmbeddings model enrichedTabs;
                 similarityMatrix = buildSimilarityMatrix cfg tabVectors;
                 groupCapacity = calculateGroupCapacity cfg screenWidth (length tabs);
                 clusters = agglomerativeClustering cfg tabVectors similarityMatrix groupCapacity
             in case consolidateSingletons cfg clusters groupCapacity of
                  Inl err \<Rightarrow> Inl err
                | Inr clusters' \<Rightarrow>
                    Inr (generateClusterMetadata (generateClusterName e model) clusters')))"

section \<open>Reference notions\<close>

text \<open>
  The Euclidean norm and the mean of a list of vectors, written with component-wise
  addition; they are what the centroid of a cluster is compared with. A vector \<open>c\<close> is
  the normalised mean of a list of vectors when it is their mean divided by the norm of
  the mean, and has norm 1. A mean of norm 0 has no normalised mean.
  \<open>l2_normalize\<close> is the last step of \<^verbatim>\<open>computeCentroid\<close> as a function of its own: it
  divides by the norm where that is positive and leaves the vector as it is otherwise.
\<close>

definition l2_norm :: "vec \<Rightarrow> real" where
  "l2_norm v = sqrt (\<Sum>x\<leftarrow>v. x * x)"

definition l2_normalize :: "vec \<Rightarrow> vec" where
  "l2_normalize v = (if l2_norm v > 0 then map (\<lambda>x. x / l2_norm v) v else v)"

definition vec_add :: "vec \<Rightarrow> vec \<Rightarrow> vec" where
  "vec_add u v = map2 (+) u v"

definition mean_vec :: "vec list \<Rightarrow> vec" where
  "mean_vec embs =
     (case embs of
        [] \<Rightarrow> []
      | e0 # es \<Rightarrow> map (\<lambda>x. x / real (length embs)) (fold (\<lambda>e acc. vec_add acc e) es e0))"

definition is_normalized_mean :: "vec \<Rightarrow> vec list \<Rightarrow> bool" where
  "is_normalized_mean c embs \<longleftrightarrow>
     l2_norm c = 1 \<and> c = map (\<lambda>x. x / l2_norm (mean_vec embs)) (mean_vec embs)"

text \<open>
  The score as the specification words it, with \<open>c\<close> the number of tokens that occur in
  both token lists.
\<close>

definition spec_pairwiseSimilarity :: "config \<Rightarrow> tabVector \<Rightarrow> tabVector \<Rightarrow> real" where
  "spec_pairwiseSimilarity cfg a b =
     sum_list (map2 (*) (embedding a) (embedding b)) +
     (if domain a = domain b then DOMAIN_AFFINITY_BOOST cfg
      else if baseDomain a = baseDomain b then DOMAIN_AFFINITY_BOOST cfg / 2
      else 0) +
     (let c = card (set (pathTokens a) \<inter> set (pathTokens b))
      in if c > 0
         then URL_PATH_BOOST cfg *
                min 1 (real c / real (max (max (length (pathTokens a)) (length (pathTokens b))) 1))
         else 0)"

section \<open>Notions for the invariants\<close>

text \<open>
  The members of a list of clusters under a field (\<open>indices\<close> or \<open>items\<close>), as a
  multiset; what makes a field a member field; a cluster that has a member, an embedding
  and a centroid; and a cluster list whose one-item clusters all come last.
\<close>

definition members :: "(cluster \<Rightarrow> 'a list) \<Rightarrow> cluster list \<Rightarrow> 'a multiset" where
  "members f cs = mset (concat (map f cs))"

definition member_field :: "(cluster \<Rightarrow> 'a list) \<Rightarrow> bool" where
  "member_field f \<longleftrightarrow>
     (\<forall>s t. f (absorbIntoCluster s t) = f t @ f s) \<and>
     (\<forall>c. f (cloneCluster c) = f c) \<and>
     (\<forall>os. f (createMiscCluster os) = concat (map f os)) \<and>
     (\<forall>a b. f (mergeClusters a b) = f a @ f b)"

definition populated :: "cluster \<Rightarrow> bool" where
  "populated c \<longleftrightarrow> items c \<noteq> [] \<and> embeddings c \<noteq> [] \<and> centroid c \<noteq> None"

definition singles_last :: "cluster list \<Rightarrow> bool" where
  "singles_last cs \<longleftrightarrow>
     (\<exists>A B. cs = A @ B \<and> (\<forall>c \<in> set A. length (items c) \<noteq> 1) \<and>
            (\<forall>c \<in> set B. length (items c) = 1))"

section \<open>Concrete inputs\<close>

text \<open>Small inputs on which the theorems below are instantiated.\<close>

definition ex_tab :: "int \<Rightarrow> string \<Rightarrow> vec \<Rightarrow> tabVector" where
  "ex_tab n host emb =
     \<lparr>domain = host, baseDomain = host, pathTokens = [],
      tab = \<lparr>tab_id = n, url = ''https://'' @ host @ ''/'', title = host\<rparr>,
      content = host, embedding = emb\<rparr>"

definition ex_matrix3 :: "real list list" where
  "ex_matrix3 = [[0, 1, 0], [1, 0, 0], [0, 0, 0]]"

definition ex_clusters3 :: "cluster list" where
  "ex_clusters3 =
     [initialCluster (ex_tab 1 ''a.com'' [1, 0]) 0,
      initialCluster (ex_tab 2 ''b.com'' [1, 0]) 1,
      initialCluster (ex_tab 3 ''c.com'' [0, 1]) 2]"

text \<open>Two one-tab clusters whose embeddings are unit vectors with the dot product 7/25.\<close>

definition ex_c1 :: cluster where
  "ex_c1 = initialCluster (ex_tab 1 ''a.com'' [1, 0]) 0"

definition ex_c2 :: cluster where
  "ex_c2 = initialCluster (ex_tab 2 ''b.com'' [7 / 25, 24 / 25]) 1"

text \<open>
  Four one-tab clusters whose embeddings are unit vectors that add up to the zero vector,
  and the first two of them.
\<close>

definition ex_east :: cluster where
  "ex_east = initialCluster (ex_tab 1 ''a.com'' [1, 0]) 0"

definition ex_west :: cluster where
  "ex_west = initialCluster (ex_tab 2 ''b.com'' [-1, 0]) 1"

definition ex_opposed :: "cluster list" where
  "ex_opposed =
     [ex_east, ex_west,
      initialCluster (ex_tab 3 ''c.com'' [0, 1]) 2,
      initialCluster (ex_tab 4 ''d.com'' [0, -1]) 3]"

text \<open>A \<^verbatim>\<open>URL\<close> constructor that knows one address and throws on every other string.\<close>

definition ex_url :: url_parser where
  "ex_url s =
     (if s = ''https://www.docs.example.com/api/v2/user-guide_intro''
      then Some (''www.docs.example.com'', ''/api/v2/user-guide_intro'')
      else None)"

text \<open>
  Two featurized tabs, as \<^verbatim>\<open>parseUrl\<close> makes them of \<^verbatim>\<open>https://a.com/docs/docs/api\<close>
  and \<^verbatim>\<open>https://b.com/docs\<close>, with equal embeddings.
\<close>

definition ex_repeat :: tabVector where
  "ex_repeat =
     \<lparr>domain = ''a.com'', baseDomain = ''a.com'', pathTokens = [''docs'', ''docs'', ''api''],
      tab = \<lparr>tab_id = 1, url = ''https://a.com/docs/docs/api'', title = ''Docs''\<rparr>,
      content = ''Docs'', embedding = [1, 0]\<rparr>"

definition ex_plain :: tabVector where
  "ex_plain =
     \<lparr>domain = ''b.com'', baseDomain = ''b.com'', pathTokens = [''docs''],
      tab = \<lparr>tab_id = 2, url = ''https://b.com/docs'', title = ''Docs''\<rparr>,
      content = ''Docs'', embedding = [1, 0]\<rparr>"

text \<open>
  The collaborators and the seven tabs of a whole run: a \<^verbatim>\<open>URL\<close> constructor for
  addresses \<^verbatim>\<open>https://host/path\<close>, no page content (the title is embedded), and an
  embedding model that knows five titles. \<open>ex_tvs7\<close> and \<open>ex_M7\<close> are the featurized
  tabs and the similarity matrix of that run.
\<close>

definition ex_parse :: url_parser where
  "ex_parse u =
     (if take 8 u = ''https://''
      then Some (takeWhile (\<lambda>c. c \<noteq> CHR ''/'') (drop 8 u), dropWhile (\<lambda>c. c \<noteq> CHR ''/'') (drop 8 u))
      else None)"

definition ex_embed :: "string \<Rightarrow> vec" where
  "ex_embed s =
     (if s = ''alpha'' then [1, 0, 0]
      else if s = ''beta'' then [0, 1, 0]
      else if s = ''gamma'' then [0, 0, 1]
      else if s = ''delta'' then [-1, 0, 0]
      else [0, -1, 0])"

definition ex_env :: env where
  "ex_env = \<lparr>urlConstructor = ex_parse, executeScript = (\<lambda>t. None),
             pipeline = Some ex_embed, generateClusterName = (\<lambda>model c. ''GROUP'')\<rparr>"

text \<open>The same collaborators where the model cannot be loaded.\<close>

definition ex_env_offline :: env where
  "ex_env_offline = \<lparr>urlConstructor = ex_parse, executeScript = (\<lambda>t. None),
                     pipeline = None, generateClusterName = (\<lambda>model c. ''GROUP'')\<rparr>"

definition ex_tabs7 :: "tab list" where
  "ex_tabs7 =
     [\<lparr>tab_id = 10, url = ''https://a.com/'', title = ''alpha''\<rparr>,
      \<lparr>tab_id = 11, url = ''https://b.com/'', title = ''alpha''\<rparr>,
      \<lparr>tab_id = 12, url = ''https://c.com/'', title = ''beta''\<rparr>,
      \<lparr>tab_id = 13, url = ''https://d.com/'', title = ''beta''\<rparr>,
      \<lparr>tab_id = 14, url = ''https://e.com/'', title = ''gamma''\<rparr>,
      \<lparr>tab_id = 15, url = ''https://f.com/'', title = ''delta''\<rparr>,
      \<lparr>tab_id = 16, url = ''https://g.com/'', title = ''epsilon''\<rparr>]"

definition ex_tv :: "int \<Rightarrow> string \<Rightarrow> string \<Rightarrow> vec \<Rightarrow> tabVector" where
  "ex_tv n host ttl emb =
     \<lparr>domain = host, baseDomain = host, pathTokens = [],
      tab = \<lparr>tab_id = n, url = ''https://'' @ host @ ''/'', title = ttl\<rparr>,
      content = ttl, embedding = emb\<rparr>"

definition ex_tvs7 :: "tabVector list" where
  "ex_tvs7 =
     [ex_tv 10 ''a.com'' ''alpha'' [1, 0, 0], ex_tv 11 ''b.com'' ''alpha'' [1, 0, 0],
      ex_tv 12 ''c.com'' ''beta'' [0, 1, 0], ex_tv 13 ''d.com'' ''beta'' [0, 1, 0],
      ex_tv 14 ''e.com'' ''gamma'' [0, 0, 1], ex_tv 15 ''f.com'' ''delta'' [-1, 0, 0],
      ex_tv 16 ''g.com'' ''epsilon'' [0, -1, 0]]"

definition ex_M7 :: "real list list" where
  "ex_M7 =
     [[0, 1, 0, 0, 0, -1, 0],
      [1, 0, 0, 0, 0, -1, 0],
      [0, 0, 0, 1, 0, 0, -1],
      [0, 0, 1, 0, 0, 0, -1],
      [0, 0, 0, 0, 0, 0, 0],
      [-1, -1, 0, 0, 0, 0, 0],
      [0, 0, -1, -1, 0, 0, 0]]"

text \<open>
  \<^verbatim>\<open>findBestMerge\<close> reads nothing of a cluster but its indices; \<open>indexOnly\<close> is a
  cluster with given indices and nothing else. The clusters of the run follow.
\<close>

definition indexOnly :: "nat list \<Rightarrow> cluster" where
  "indexOnly idxs =
     \<lparr>indices = idxs, items = [], embeddings = [], domains = {}, centroid = None, isMisc = False\<rparr>"

definition ex_single :: "nat \<Rightarrow> cluster" where
  "ex_single k = initialCluster (ex_tvs7 ! k) k"

definition ex_pairA :: cluster where
  "ex_pairA = mergeClusters (ex_single 0) (ex_single 1)"

definition ex_pairB :: cluster where
  "ex_pairB = mergeClusters (ex_single 2) (ex_single 3)"

definition ex_start :: "cluster list" where
  "ex_start = [ex_single 0, ex_single 1, ex_single 2, ex_single 3, ex_single 4, ex_single 5,
     ex_single 6]"

definition ex_after1 :: "cluster list" where
  "ex_after1 = [ex_single 2, ex_single 3, ex_single 4, ex_single 5, ex_single 6, ex_pairA]"

definition ex_after2 :: "cluster list" where
  "ex_after2 = [ex_single 4, ex_single 5, ex_single 6, ex_pairA, ex_pairB]"

definition ex_misc :: cluster where
  "ex_misc = createMiscCluster
     [cloneCluster (ex_single 4), cloneCluster (ex_single 5), cloneCluster (ex_single 6)]"

section \<open>The featurizer\<close>

lemma split_chars_nonempty: "split_chars sep s \<noteq> []"
  by (induction s) (auto split: list.splits)

lemma split_chars_no_sep: "t \<in> set (split_chars sep s) \<Longrightarrow> c \<in> set t \<Longrightarrow> \<not> sep c"
proof (induction s arbitrary: t)
  case Nil
  then show ?case by simp
next
  case (Cons a s)
  show ?case
  proof (cases "sep a")
    case True
    with Cons.prems(1) have "t = [] \<or> t \<in> set (split_chars sep s)" by auto
    with Cons.IH Cons.prems(2) show ?thesis by auto
  next
    case False
    obtain u us where sp: "split_chars sep s = u # us"
      using split_chars_nonempty[of sep s] by (cases "split_chars sep s") auto
    with False Cons.prems(1) have "t = a # u \<or> t \<in> set us" by auto
    then show ?thesis
    proof
      assume t: "t = a # u"
      have "u \<in> set (split_chars sep s)" by (simp add: sp)
      from Cons.IH[OF this] t Cons.prems(2) False show ?thesis by auto
    next
      assume "t \<in> set us"
      then have "t \<in> set (split_chars sep s)" by (simp add: sp)
      from Cons.IH[OF this Cons.prems(2)] show ?thesis .
    qed
  qed
qed

lemma join_split_dot: "join ''.'' (split_chars (\<lambda>c. c = CHR ''.'') s) = s"
proof (induction s)
  case Nil
  then show ?case by simp
next
  case (Cons a s)
  show ?case
  proof (cases "split_chars (\<lambda>c. c = CHR ''.'') s")
    case Nil
    then show ?thesis using split_chars_nonempty by blast
  next
    case (Cons t ts)
    with Cons.IH show ?thesis by (cases ts) auto
  qed
qed

lemma slice_last2_two:
  assumes "2 \<le> length xs"
  shows "slice_last2 xs = [xs ! (length xs - 2), xs ! (length xs - 1)]"
proof -
  define n where "n = length xs"
  have a: "n - 2 < length xs" and b: "n - 1 < length xs" and c: "Suc (n - 2) = n - 1"
    and d: "Suc (n - 1) = n"
    using assms by (simp_all add: n_def)
  have "drop (n - 2) xs = xs ! (n - 2) # drop (Suc (n - 2)) xs"
    using Cons_nth_drop_Suc[OF a] by simp
  also have "drop (Suc (n - 2)) xs = xs ! (n - 1) # drop (Suc (n - 1)) xs"
    unfolding c using Cons_nth_drop_Suc[OF b] by simp
  also have "drop (Suc (n - 1)) xs = []" unfolding d by (simp add: n_def)
  finally show ?thesis by (simp add: slice_last2_def n_def)
qed

lemma parseUrl_Some:
  assumes "URL s = Some (host, pathname)"
  shows "domain (parseUrl URL s) = strip_www host"
    and "baseDomain (parseUrl URL s) =
      (if 2 \<le> length (split_chars (\<lambda>c. c = CHR ''.'') (strip_www host))
       then join ''.'' (slice_last2 (split_chars (\<lambda>c. c = CHR ''.'') (strip_www host)))
       else strip_www host)"
    and "pathTokens (parseUrl URL s) =
      take 5 (filter (\<lambda>t. 2 < length t)
        (split_chars (\<lambda>c. c = CHR ''/'' \<or> c = CHR ''-'' \<or> c = CHR ''_'') pathname))"
  by (simp_all only: parseUrl_def assms option.case prod.case Let_def urlParts.simps)

text \<open>
  Claim C8. \<^verbatim>\<open>parseUrl\<close> is total: where the \<^verbatim>\<open>URL\<close> constructor throws it returns
  empty strings and no token. Otherwise \<^verbatim>\<open>domain\<close> is the host name without a leading
  \<^verbatim>\<open>www.\<close>; with the labels of the domain being its pieces between dots,
  \<^verbatim>\<open>baseDomain\<close> is the last two labels joined by a dot when there are two or more and
  the domain otherwise; and \<^verbatim>\<open>pathTokens\<close> are the first five, in order, of the pieces
  of the path between \<^verbatim>\<open>/\<close>, \<^verbatim>\<open>-\<close> and \<^verbatim>\<open>_\<close> that are longer than two characters.
\<close>

theorem parseUrl_fields:
  "(URL s = None \<longrightarrow> parseUrl URL s = \<lparr>domain = '''', baseDomain = '''', pathTokens = []\<rparr>) \<and>
   (\<forall>host pathname.
      URL s = Some (host, pathname) \<longrightarrow>
      domain (parseUrl URL s) = (if take 4 host = ''www.'' then drop 4 host else host) \<and>
      (let labels = split_chars (\<lambda>c. c = CHR ''.'') (domain (parseUrl URL s))
       in join ''.'' labels = domain (parseUrl URL s) \<and>
          baseDomain (parseUrl URL s) =
            (if 2 \<le> length labels
             then labels ! (length labels - 2) @ ''.'' @ labels ! (length labels - 1)
             else domain (parseUrl URL s))) \<and>
      pathTokens (parseUrl URL s) =
        take 5 (filter (\<lambda>t. 2 < length t)
          (split_chars (\<lambda>c. c = CHR ''/'' \<or> c = CHR ''-'' \<or> c = CHR ''_'') pathname)) \<and>
      length (pathTokens (parseUrl URL s)) \<le> 5 \<and>
      (\<forall>t \<in> set (pathTokens (parseUrl URL s)).
         2 < length t \<and> CHR ''/'' \<notin> set t \<and> CHR ''-'' \<notin> set t \<and> CHR ''_'' \<notin> set t))"
proof (intro conjI allI impI)
  assume "URL s = None"
  then show "parseUrl URL s = \<lparr>domain = '''', baseDomain = '''', pathTokens = []\<rparr>"
    by (simp only: parseUrl_def option.case)
next
  fix host pathname
  assume h: "URL s = Some (host, pathname)"
  define r where "r = parseUrl URL s"
  define sep where "sep = (\<lambda>c. c = CHR ''/'' \<or> c = CHR ''-'' \<or> c = CHR ''_'')"
  define labels where "labels = split_chars (\<lambda>c. c = CHR ''.'') (domain r)"
  note f = parseUrl_Some[of URL s host pathname, OF h, folded r_def sep_def]
  show "domain (parseUrl URL s) = (if take 4 host = ''www.'' then drop 4 host else host)"
    by (simp only: f(1)[unfolded r_def] strip_www_def)
  have j: "join ''.'' labels = domain r" by (simp only: labels_def join_split_dot)
  have b: "baseDomain r = (if 2 \<le> length labels then join ''.'' (slice_last2 labels) else domain r)"
    by (simp only: f(2) labels_def f(1))
  have b': "baseDomain r =
      (if 2 \<le> length labels
       then labels ! (length labels - 2) @ ''.'' @ labels ! (length labels - 1)
       else domain r)"
  proof (cases "2 \<le> length labels")
    case True
    then show ?thesis by (simp only: b slice_last2_two[OF True] if_True join.simps)
  next
    case False
    then show ?thesis by (simp only: b if_False)
  qed
  from j b' show "let labels = split_chars (\<lambda>c. c = CHR ''.'') (domain (parseUrl URL s))
       in join ''.'' labels = domain (parseUrl URL s) \<and>
          baseDomain (parseUrl URL s) =
            (if 2 \<le> length labels
             then labels ! (length labels - 2) @ ''.'' @ labels ! (length labels - 1)
             else domain (parseUrl URL s))"
    by (simp only: Let_def labels_def r_def)
  show p: "pathTokens (parseUrl URL s) =
        take 5 (filter (\<lambda>t. 2 < length t)
          (split_chars (\<lambda>c. c = CHR ''/'' \<or> c = CHR ''-'' \<or> c = CHR ''_'') pathname))"
    by (simp only: f(3)[unfolded r_def sep_def])
  have p': "pathTokens r = take 5 (filter (\<lambda>t. 2 < length t) (split_chars sep pathname))"
    by (rule f(3))
  show "length (pathTokens (parseUrl URL s)) \<le> 5"
    unfolding p'[unfolded r_def] by simp
  show "\<forall>t \<in> set (pathTokens (parseUrl URL s)).
         2 < length t \<and> CHR ''/'' \<notin> set t \<and> CHR ''-'' \<notin> set t \<and> CHR ''_'' \<notin> set t"
  proof
    fix t assume "t \<in> set (pathTokens (parseUrl URL s))"
    then have "t \<in> set (filter (\<lambda>t. 2 < length t) (split_chars sep pathname))"
      unfolding p'[unfolded r_def] by (rule in_set_takeD)
    then have t: "2 < length t" "t \<in> set (split_chars sep pathname)" by auto
    have "\<not> sep c" if "c \<in> set t" for c using split_chars_no_sep[OF t(2) that] .
    then have "CHR ''/'' \<notin> set t \<and> CHR ''-'' \<notin> set t \<and> CHR ''_'' \<notin> set t"
      unfolding sep_def by blast
    with t(1) show "2 < length t \<and> CHR ''/'' \<notin> set t \<and> CHR ''-'' \<notin> set t \<and> CHR ''_'' \<notin> set t"
      by blast
  qed
qed

lemma ex_url_parsed:
  "parseUrl ex_url ''https://www.docs.example.com/api/v2/user-guide_intro'' =
     \<lparr>domain = ''docs.example.com'', baseDomain = ''example.com'',
      pathTokens = [''api'', ''user'', ''guide'', ''intro'']\<rparr>"
  by code_simp

lemma ex_url_None: "ex_url ''not a url'' = None"
  by code_simp

lemma ex_url_Some:
  "ex_url ''https://www.docs.example.com/api/v2/user-guide_intro'' =
     Some (''www.docs.example.com'', ''/api/v2/user-guide_intro'')"
  by code_simp

theorem parseUrl_fields_witness:
  "parseUrl ex_url ''not a url'' = \<lparr>domain = '''', baseDomain = '''', pathTokens = []\<rparr> \<and>
   ex_url ''https://www.docs.example.com/api/v2/user-guide_intro'' =
     Some (''www.docs.example.com'', ''/api/v2/user-guide_intro'') \<and>
   parseUrl ex_url ''https://www.docs.example.com/api/v2/user-guide_intro'' =
     \<lparr>domain = ''docs.example.com'', baseDomain = ''example.com'',
      pathTokens = [''api'', ''user'', ''guide'', ''intro'']\<rparr> \<and>
   length (pathTokens (parseUrl ex_url ''https://www.docs.example.com/api/v2/user-guide_intro''))
     \<le> 5"
proof -
  from parseUrl_fields[of ex_url "''not a url''"] ex_url_None
  have a: "parseUrl ex_url ''not a url'' = \<lparr>domain = '''', baseDomain = '''', pathTokens = []\<rparr>"
    by blast
  from parseUrl_fields[of ex_url "''https://www.docs.example.com/api/v2/user-guide_intro''"]
    ex_url_Some
  have b: "length (pathTokens
      (parseUrl ex_url ''https://www.docs.example.com/api/v2/user-guide_intro'')) \<le> 5"
    by blast
  show ?thesis using a b ex_url_Some ex_url_parsed by (intro conjI)
qed

section \<open>Pairwise similarity\<close>

lemma fold_add_sum_list: "fold (\<lambda>i (m::real). m + f i) xs a = a + (\<Sum>i\<leftarrow>xs. f i)"
  by (induction xs arbitrary: a) auto

lemma cosineSimilarity_dot:
  assumes "length v1 \<le> length v2"
  shows "cosineSimilarity v1 v2 = sum_list (map2 (*) v1 v2)"
proof -
  have "map2 (*) v1 v2 = map (\<lambda>i. v1 ! i * v2 ! i) [0..<length v1]"
    using assms by (intro nth_equalityI) auto
  then show ?thesis by (simp add: cosineSimilarity_def fold_add_sum_list)
qed

lemma common_tokens_card:
  assumes "distinct ts"
  shows "length (filter (\<lambda>t. t \<in> set us) ts) = card (set ts \<inter> set us)"
proof -
  have "distinct (filter (\<lambda>t. t \<in> set us) ts)" using assms by simp
  then have "card (set (filter (\<lambda>t. t \<in> set us) ts)) = length (filter (\<lambda>t. t \<in> set us) ts)"
    by (rule distinct_card)
  moreover have "set (filter (\<lambda>t. t \<in> set us) ts) = set ts \<inter> set us" by auto
  ultimately show ?thesis by simp
qed

lemma pairwiseSimilarity_distinct_tokens:
  assumes "length (embedding a) \<le> length (embedding b)" "distinct (pathTokens a)"
  shows "computePairwiseSimilarity cfg a b = spec_pairwiseSimilarity cfg a b"
proof -
  define c where "c = length (filter (\<lambda>t. t \<in> set (pathTokens b)) (pathTokens a))"
  have c: "card (set (pathTokens a) \<inter> set (pathTokens b)) = c"
    unfolding c_def by (rule common_tokens_card[OF assms(2), symmetric])
  show ?thesis
    unfolding computePairwiseSimilarity_def spec_pairwiseSimilarity_def Let_def
      cosineSimilarity_dot[OF assms(1)] c c_def[symmetric]
    by simp
qed

text \<open>
  Where neither tab repeats a token the score is symmetric, and the matrix is symmetric
  in any case, since each score is written to both cells.
\<close>

lemma map2_mult_commute: "map2 (*) (u :: real list) v = map2 (*) v u"
  by (rule nth_equalityI) (simp_all add: mult.commute)

lemma spec_pairwiseSimilarity_symmetric:
  "spec_pairwiseSimilarity cfg a b = spec_pairwiseSimilarity cfg b a"
proof -
  have i: "set (pathTokens a) \<inter> set (pathTokens b) = set (pathTokens b) \<inter> set (pathTokens a)"
    by (rule Int_commute)
  have m: "max (length (pathTokens a)) (length (pathTokens b)) =
      max (length (pathTokens b)) (length (pathTokens a))"
    by (rule max.commute)
  show ?thesis
    unfolding spec_pairwiseSimilarity_def i m map2_mult_commute[of "embedding a" "embedding b"]
    by auto
qed

lemma pairwiseSimilarity_symmetric_distinct_tokens:
  assumes "length (embedding a) = length (embedding b)"
    "distinct (pathTokens a)" "distinct (pathTokens b)"
  shows "computePairwiseSimilarity cfg a b = computePairwiseSimilarity cfg b a"
  using pairwiseSimilarity_distinct_tokens[of a b cfg] pairwiseSimilarity_distinct_tokens[of b a cfg]
    spec_pairwiseSimilarity_symmetric[of cfg a b] assms
  by simp

lemma buildSimilarityMatrix_symmetric:
  assumes "i < length tvs" "j < length tvs"
  shows "buildSimilarityMatrix cfg tvs ! i ! j = buildSimilarityMatrix cfg tvs ! j ! i"
  using assms by (simp add: buildSimilarityMatrix_def Let_def)

lemma ex_repeat_tokens:
  "pathTokens (parseUrl (\<lambda>u. Some (''a.com'', ''/docs/docs/api'')) ''https://a.com/docs/docs/api'') =
     [''docs'', ''docs'', ''api'']"
  by code_simp

lemma ex_repeat_plain: "computePairwiseSimilarity default_config ex_repeat ex_plain = 79 / 75"
  by code_simp

lemma ex_plain_repeat: "computePairwiseSimilarity default_config ex_plain ex_repeat = 77 / 75"
  by code_simp

lemma ex_spec_value: "spec_pairwiseSimilarity default_config ex_repeat ex_plain = 77 / 75"
proof -
  have "set (pathTokens ex_repeat) \<inter> set (pathTokens ex_plain) = {''docs''}"
    by (auto simp: ex_repeat_def ex_plain_def)
  then show ?thesis
    by (simp add: spec_pairwiseSimilarity_def Let_def)
       (simp add: ex_repeat_def ex_plain_def default_config_def)
qed

text \<open>
  Claim C6. \<^verbatim>\<open>computePairwiseSimilarity\<close> is not symmetric: the common tokens are the
  entries of the first tab's token list that occur in the second tab's, so a token the
  first tab repeats is counted once for each repetition. For a tab with the path
  \<^verbatim>\<open>/docs/docs/api\<close> and a tab with the path \<^verbatim>\<open>/docs\<close> the score is \<open>79/75\<close> in one
  order and \<open>77/75\<close> in the other.
\<close>

theorem pairwise_similarity_asymmetric:
  "computePairwiseSimilarity default_config ex_repeat ex_plain = 79 / 75 \<and>
   computePairwiseSimilarity default_config ex_plain ex_repeat = 77 / 75 \<and>
   computePairwiseSimilarity default_config ex_repeat ex_plain \<noteq>
     computePairwiseSimilarity default_config ex_plain ex_repeat"
  by (simp add: ex_repeat_plain ex_plain_repeat)

text \<open>
  Claim C5. On the same two tabs the score of \<^verbatim>\<open>computePairwiseSimilarity\<close> is
  \<open>79/75\<close>, while the dot product plus the domain boost plus the path boost for the one
  shared token is \<open>77/75\<close>. (For a first tab without a repeated token the two agree:
  \<open>pairwiseSimilarity_distinct_tokens\<close>.)
\<close>

theorem pairwise_similarity_counts_repeats:
  "computePairwiseSimilarity default_config ex_repeat ex_plain = 79 / 75 \<and>
   spec_pairwiseSimilarity default_config ex_repeat ex_plain = 77 / 75"
  by (simp add: ex_repeat_plain ex_spec_value)

section \<open>The agglomerative loop\<close>

lemma mergeLoop_run:
  "(\<lambda>a b. mergeStep M tg thr a = Some b)\<^sup>*\<^sup>* cs (mergeLoop M tg thr cs) \<and>
   mergeStep M tg thr (mergeLoop M tg thr cs) = None"
proof (induction M tg thr cs rule: mergeLoop.induct)
  case (1 M tg thr cs)
  show ?case
  proof (cases "mergeStep M tg thr cs")
    case None
    then show ?thesis by (simp add: mergeLoop.simps)
  next
    case (Some cs')
    from "1.IH"[OF Some] Some show ?thesis
      by (subst (1 2) mergeLoop.simps) (auto intro: converse_rtranclp_into_rtranclp)
  qed
qed

lemma mergeStep_Some:
  assumes "mergeStep M tg thr cs = Some cs'"
  shows "tg < int (length cs) \<and>
     (\<exists>i j. i < j \<and> j < length cs \<and>
        findBestMerge cs M = Some (i, j, averageLinkage M (cs ! i) (cs ! j)) \<and>
        thr \<le> averageLinkage M (cs ! i) (cs ! j) \<and>
        cs' = removePair i j cs @ [mergeClusters (cs ! i) (cs ! j)])"
proof -
  from assms have tg: "tg < int (length cs)" by (auto simp: mergeStep_def split: if_splits)
  from assms obtain i j s where f: "findBestMerge cs M = Some (i, j, s)" and s: "\<not> s < thr"
    and cs': "cs' = removePair i j cs @ [mergeClusters (cs ! i) (cs ! j)]"
    by (auto simp: mergeStep_def split: if_splits option.splits)
  from findBestMerge_Some(1-3)[OF f] f s cs' tg show ?thesis by auto
qed

lemma mergeLoop_break:
  assumes "findBestMerge cs M = Some (i, j, s)" "s < thr"
  shows "mergeLoop M tg thr cs = cs"
proof -
  from assms have "mergeStep M tg thr cs = None" by (simp add: mergeStep_def)
  then show ?thesis by (simp add: mergeLoop.simps)
qed

text \<open>
  Claim C2. The loop of \<^verbatim>\<open>agglomerativeClustering\<close> runs on the threshold
  \<open>base * max(0.85, 1 - (itemCount - 10) * 0.01)\<close>; its result is reached from the
  initial clusters by merge steps and admits no further step; a merge step is taken only
  when the cluster count exceeds the target, it merges the pair \<^verbatim>\<open>findBestMerge\<close>
  selects, and the average-linkage similarity of that pair is not below the threshold;
  when the best similarity is below the threshold the loop returns the clusters as they
  are, whatever their count.
\<close>

theorem agglomerative_merge_guard:
  "computeAdaptiveThreshold cfg itemCount tg =
     CONTENT_SIMILARITY_THRESHOLD cfg * max 0.85 (1 - (real itemCount - 10) * 0.01) \<and>
   agglomerativeClustering cfg tvs M tg =
     mergeLoop M tg (computeAdaptiveThreshold cfg (length tvs) tg)
       (map (\<lambda>(idx, tv). initialCluster tv idx) (zip [0..<length tvs] tvs)) \<and>
   (\<lambda>a b. mergeStep M tg thr a = Some b)\<^sup>*\<^sup>* cs (mergeLoop M tg thr cs) \<and>
   mergeStep M tg thr (mergeLoop M tg thr cs) = None \<and>
   (\<forall>cs'. mergeStep M tg thr cs = Some cs' \<longrightarrow>
      tg < int (length cs) \<and>
      (\<exists>i j. i < j \<and> j < length cs \<and>
         findBestMerge cs M = Some (i, j, averageLinkage M (cs ! i) (cs ! j)) \<and>
         thr \<le> averageLinkage M (cs ! i) (cs ! j) \<and>
         cs' = removePair i j cs @ [mergeClusters (cs ! i) (cs ! j)])) \<and>
   (\<forall>i j s. findBestMerge cs M = Some (i, j, s) \<and> s < thr \<longrightarrow> mergeLoop M tg thr cs = cs)"
proof (intro conjI allI impI)
  show "computeAdaptiveThreshold cfg itemCount tg =
     CONTENT_SIMILARITY_THRESHOLD cfg * max 0.85 (1 - (real itemCount - 10) * 0.01)"
    by (simp add: computeAdaptiveThreshold_def)
  show "agglomerativeClustering cfg tvs M tg =
     mergeLoop M tg (computeAdaptiveThreshold cfg (length tvs) tg)
       (map (\<lambda>(idx, tv). initialCluster tv idx) (zip [0..<length tvs] tvs))"
    by (simp add: agglomerativeClustering_def Let_def)
  show "(\<lambda>a b. mergeStep M tg thr a = Some b)\<^sup>*\<^sup>* cs (mergeLoop M tg thr cs)"
    using mergeLoop_run by blast
  show "mergeStep M tg thr (mergeLoop M tg thr cs) = None"
    using mergeLoop_run by blast
next
  fix cs' assume "mergeStep M tg thr cs = Some cs'"
  from mergeStep_Some[OF this]
  show "tg < int (length cs)"
    and "\<exists>i j. i < j \<and> j < length cs \<and>
         findBestMerge cs M = Some (i, j, averageLinkage M (cs ! i) (cs ! j)) \<and>
         thr \<le> averageLinkage M (cs ! i) (cs ! j) \<and>
         cs' = removePair i j cs @ [mergeClusters (cs ! i) (cs ! j)]"
    by blast+
next
  fix i j s assume "findBestMerge cs M = Some (i, j, s) \<and> s < thr"
  then show "mergeLoop M tg thr cs = cs" using mergeLoop_break by blast
qed

lemma ex_best3: "findBestMerge ex_clusters3 ex_matrix3 = Some (0, 1, 1)"
  by code_simp

lemma indices_initialCluster: "indices (initialCluster tv idx) = [idx]"
  by (simp add: initialCluster_def)

lemma indices_mergeClusters: "indices (mergeClusters c1 c2) = indices c1 @ indices c2"
  by (simp add: mergeClusters_def Let_def)

lemma ex_next2:
  "removePair 0 1 ex_clusters3 @ [mergeClusters (ex_clusters3 ! 0) (ex_clusters3 ! 1)] =
   [initialCluster (ex_tab 3 ''c.com'' [0, 1]) 2,
    mergeClusters (initialCluster (ex_tab 1 ''a.com'' [1, 0]) 0)
      (initialCluster (ex_tab 2 ''b.com'' [1, 0]) 1)]"
  by (simp add: removePair_def ex_clusters3_def)

lemma ex_best2:
  "findBestMerge (removePair 0 1 ex_clusters3 @ [mergeClusters (ex_clusters3 ! 0) (ex_clusters3 ! 1)])
     ex_matrix3 = Some (0, 1, 0)"
  unfolding ex_next2
  by (simp add: findBestMerge_def scanPairs_def considerPair_def averageLinkage_def
      indices_initialCluster indices_mergeClusters ex_matrix3_def)

lemma ex_threshold3: "computeAdaptiveThreshold default_config 3 tg = 0.4066"
  by (simp add: computeAdaptiveThreshold_def default_config_def)

theorem agglomerative_merge_guard_witness:
  "mergeStep ex_matrix3 2 (computeAdaptiveThreshold default_config 3 2) ex_clusters3 =
     Some (removePair 0 1 ex_clusters3 @ [mergeClusters (ex_clusters3 ! 0) (ex_clusters3 ! 1)]) \<and>
   (2::int) < int (length ex_clusters3) \<and>
   findBestMerge (removePair 0 1 ex_clusters3 @ [mergeClusters (ex_clusters3 ! 0) (ex_clusters3 ! 1)])
     ex_matrix3 = Some (0, 1, 0) \<and>
   0 < computeAdaptiveThreshold default_config 3 1 \<and>
   mergeLoop ex_matrix3 1 (computeAdaptiveThreshold default_config 3 1)
     (removePair 0 1 ex_clusters3 @ [mergeClusters (ex_clusters3 ! 0) (ex_clusters3 ! 1)]) =
     removePair 0 1 ex_clusters3 @ [mergeClusters (ex_clusters3 ! 0) (ex_clusters3 ! 1)]"
proof -
  let ?next = "removePair 0 1 ex_clusters3 @ [mergeClusters (ex_clusters3 ! 0) (ex_clusters3 ! 1)]"
  have len: "length ex_clusters3 = 3" by (simp add: ex_clusters3_def)
  have step: "mergeStep ex_matrix3 2 (computeAdaptiveThreshold default_config 3 2) ex_clusters3 =
      Some ?next"
    by (simp add: mergeStep_def ex_best3 ex_threshold3 len)
  have low: "(0::real) < computeAdaptiveThreshold default_config 3 1"
    by (simp add: ex_threshold3)
  from agglomerative_merge_guard[of default_config 3 2 "[]" ex_matrix3
      "computeAdaptiveThreshold default_config 3 2" ex_clusters3] step
  have a: "(2::int) < int (length ex_clusters3)" by blast
  from agglomerative_merge_guard[of default_config 3 1 "[]" ex_matrix3
      "computeAdaptiveThreshold default_config 3 1" ?next] ex_best2 low
  have b: "mergeLoop ex_matrix3 1 (computeAdaptiveThreshold default_config 3 1) ?next = ?next"
    by blast
  show ?thesis using step ex_best2 low a b by (intro conjI)
qed

section \<open>Centroids\<close>

lemma fold_vec_add_sum:
  "length acc = d \<Longrightarrow> \<forall>e \<in> set es. length e = d \<Longrightarrow>
   fold (\<lambda>e acc. vec_add acc e) es acc = map (\<lambda>i. acc ! i + (\<Sum>e\<leftarrow>es. e ! i)) [0..<d]"
proof (induction es arbitrary: acc)
  case Nil
  then have "map ((!) acc) [0..<d] = acc" using map_nth[of acc] by simp
  then show ?case by simp
next
  case (Cons e es)
  from Cons.prems have le: "length e = d" by simp
  have va: "vec_add acc e = map (\<lambda>i. acc ! i + e ! i) [0..<d]"
    unfolding vec_add_def using Cons.prems(1) le by (intro nth_equalityI) auto
  then have "length (vec_add acc e) = d" by simp
  from Cons.IH[OF this] Cons.prems(2) show ?case by (simp add: va add.assoc)
qed

lemma mean_vec_sums:
  assumes "\<forall>e \<in> set (e0 # es). length e = length e0"
  shows "mean_vec (e0 # es) =
     map (\<lambda>i. (\<Sum>e\<leftarrow>e0 # es. e ! i) / real (length (e0 # es))) [0..<length e0]"
  using assms fold_vec_add_sum[of e0 "length e0" es]
  by (simp add: mean_vec_def comp_def)

lemma fold_add_sum: "fold (\<lambda>i (m::real). m + f i) xs a = a + (\<Sum>i\<leftarrow>xs. f i)"
  by (induction xs arbitrary: a) auto

lemma fold_vec_add:
  "length c0 = d \<Longrightarrow>
   fold (\<lambda>emb c. map (\<lambda>i. c ! i + emb ! i) [0..<d]) embs c0 =
   map (\<lambda>i. c0 ! i + (\<Sum>e\<leftarrow>embs. e ! i)) [0..<d]"
proof (induction embs arbitrary: c0)
  case Nil
  then have "map ((!) c0) [0..<d] = c0" using map_nth[of c0] by simp
  then show ?case by simp
next
  case (Cons e embs)
  have "length (map (\<lambda>i. c0 ! i + e ! i) [0..<d]) = d" by simp
  from Cons.IH[OF this] show ?case by (simp add: add.assoc)
qed

lemma map_nth_upt: "map (\<lambda>i. f (S ! i)) [0..<length S] = map f S"
  by (rule nth_equalityI) auto

lemma sum_list_map_nth_upt: "(\<Sum>i\<leftarrow>[0..<length S]. f (S ! i)) = (\<Sum>x\<leftarrow>S. f x)"
  by (simp only: map_nth_upt)

lemma l2_norm_zero: "l2_norm v = 0 \<Longrightarrow> x \<in> set v \<Longrightarrow> x = 0"
proof -
  assume a: "l2_norm v = 0" and x: "x \<in> set v"
  have nn: "\<And>y. y \<in> set (map (\<lambda>x. x * x) v) \<Longrightarrow> 0 \<le> y" by auto
  from a have "(\<Sum>x\<leftarrow>v. x * x) = 0" by (simp add: l2_norm_def)
  with sum_list_nonneg_eq_0_iff[of "map (\<lambda>x. x * x) v"] nn x have "x * x = 0" by auto
  then show "x = 0" by simp
qed

lemma l2_norm_nonneg: "0 \<le> l2_norm v"
  unfolding l2_norm_def by (rule real_sqrt_ge_zero) (rule sum_list_nonneg, auto)

lemma l2_norm_scale: "0 < k \<Longrightarrow> l2_norm (map (\<lambda>x. x / k) v) = l2_norm v / k"
proof -
  assume k: "0 < k"
  have "(\<Sum>x\<leftarrow>map (\<lambda>x. x / k) v. x * x) = (\<Sum>x\<leftarrow>v. x * x) / (k * k)"
    by (induction v) (auto simp: add_divide_distrib comp_def)
  then show ?thesis using k by (simp add: l2_norm_def real_sqrt_divide real_sqrt_mult comp_def)
qed

lemma computeCentroid_many:
  "computeCentroid (e0 # e1 # rest) =
     Some (l2_normalize (map (\<lambda>i. \<Sum>e\<leftarrow>e0 # e1 # rest. e ! i) [0..<length e0]))"
proof -
  define embs where "embs = e0 # e1 # rest"
  define d where "d = length e0"
  define S where "S = map (\<lambda>i. \<Sum>e\<leftarrow>embs. e ! i) [0..<d]"
  have len: "length S = d" by (simp add: S_def)
  have summed: "fold (\<lambda>emb c. map (\<lambda>i. c ! i + emb ! i) [0..<d]) embs (replicate d 0) = S"
    by (subst fold_vec_add) (auto simp: S_def)
  have "(\<Sum>i\<leftarrow>[0..<d]. S ! i * S ! i) = (\<Sum>x\<leftarrow>S. x * x)"
    using sum_list_map_nth_upt[of "\<lambda>x. x * x" S] by (simp only: len)
  then have mag: "sqrt (fold (\<lambda>i m. m + S ! i * S ! i) [0..<d] 0) = l2_norm S"
    by (simp add: fold_add_sum l2_norm_def)
  have div: "map (\<lambda>i. S ! i / l2_norm S) [0..<d] = map (\<lambda>x. x / l2_norm S) S"
    using map_nth_upt[of "\<lambda>x. x / l2_norm S" S] by (simp only: len)
  have "computeCentroid (e0 # e1 # rest) =
      Some (if sqrt (fold (\<lambda>i m. m + S ! i * S ! i) [0..<d] 0) > 0
            then map (\<lambda>i. S ! i / sqrt (fold (\<lambda>i m. m + S ! i * S ! i) [0..<d] 0)) [0..<d]
            else S)"
    by (simp only: computeCentroid_def list.case Let_def summed[unfolded embs_def] d_def[symmetric])
  also have "\<dots> = Some (l2_normalize S)"
    by (simp only: mag div l2_normalize_def)
  finally show ?thesis by (simp only: S_def embs_def d_def)
qed

lemma normalize_mean:
  assumes "\<forall>e \<in> set (e0 # rest). length e = length e0"
  shows "l2_normalize (mean_vec (e0 # rest)) =
     l2_normalize (map (\<lambda>i. \<Sum>e\<leftarrow>e0 # rest. e ! i) [0..<length e0])"
proof -
  define embs where "embs = e0 # rest"
  define S where "S = map (\<lambda>i. \<Sum>e\<leftarrow>embs. e ! i) [0..<length e0]"
  define n where "n = real (length embs)"
  have n: "0 < n" by (simp add: n_def embs_def)
  have mean: "mean_vec embs = map (\<lambda>x. x / n) S"
    using mean_vec_sums[OF assms] by (simp add: comp_def S_def n_def embs_def)
  have norm: "l2_norm (map (\<lambda>x. x / n) S) = l2_norm S / n"
    by (rule l2_norm_scale[OF n])
  have "l2_normalize (map (\<lambda>x. x / n) S) = l2_normalize S"
  proof (cases "l2_norm S > 0")
    case True
    with n have pos: "l2_norm S / n > 0" by simp
    have "x / n / (l2_norm S / n) = x / l2_norm S" for x using n by simp
    then have "map (\<lambda>x. x / (l2_norm S / n)) (map (\<lambda>x. x / n) S) = map (\<lambda>x. x / l2_norm S) S"
      by (simp add: comp_def)
    then show ?thesis using True pos by (simp only: l2_normalize_def norm if_True)
  next
    case False
    with l2_norm_nonneg[of S] have z: "l2_norm S = 0" by simp
    have zero: "x = 0" if "x \<in> set S" for x using z that by (rule l2_norm_zero)
    have "x / n = x" if "x \<in> set S" for x using zero[OF that] by simp
    then have "map (\<lambda>x. x / n) S = S" by (rule map_idI)
    then show ?thesis by simp
  qed
  then have "l2_normalize (mean_vec embs) = l2_normalize S" by (simp only: mean)
  then show ?thesis by (simp only: S_def embs_def)
qed

lemma computeCentroid_is_normalized_mean:
  assumes "2 \<le> length embs" "\<forall>e \<in> set embs. length e = d"
  shows "computeCentroid embs = Some (l2_normalize (mean_vec embs))"
proof -
  from assms(1) obtain e0 e1 rest where embs: "embs = e0 # e1 # rest"
    by (cases embs; cases "tl embs") auto
  with assms(2) have "\<forall>e \<in> set (e0 # e1 # rest). length e = length e0" by simp
  from normalize_mean[OF this] computeCentroid_many[of e0 e1 rest] show ?thesis
    by (simp only: embs)
qed

lemma length_mean_vec:
  assumes "\<forall>e \<in> set (e0 # es). length e = length e0"
  shows "length (mean_vec (e0 # es)) = length e0"
  using mean_vec_sums[OF assms] by simp

lemma computeCentroid_mean_cases:
  assumes "2 \<le> length embs" "\<forall>e \<in> set embs. length e = d"
  shows "\<exists>c. computeCentroid embs = Some c \<and>
           (if l2_norm (mean_vec embs) = 0 then c = replicate d 0
            else is_normalized_mean c embs)"
proof -
  define m where "m = mean_vec embs"
  from assms(1) obtain e0 es where embs: "embs = e0 # es" by (cases embs) auto
  with assms(2) have "\<forall>e \<in> set (e0 # es). length e = length e0" and d: "length e0 = d"
    by simp_all
  from length_mean_vec[OF this(1)] d have len: "length m = d" by (simp add: m_def embs)
  have cc: "computeCentroid embs = Some (l2_normalize m)"
    unfolding m_def using assms by (rule computeCentroid_is_normalized_mean)
  show ?thesis
  proof (cases "l2_norm m = 0")
    case True
    then have "\<forall>x \<in> set m. x = 0" by (auto dest: l2_norm_zero)
    then have "replicate (length m) 0 = m" by (rule replicate_length_same)
    with len have "m = replicate d 0" by simp
    moreover from True have "l2_normalize m = m" by (simp add: l2_normalize_def)
    ultimately show ?thesis using True cc by (simp add: m_def[symmetric])
  next
    case False
    with l2_norm_nonneg[of m] have pos: "0 < l2_norm m" by simp
    then have n: "l2_normalize m = map (\<lambda>x. x / l2_norm m) m" by (simp add: l2_normalize_def)
    from l2_norm_scale[OF pos, of m] pos have "l2_norm (map (\<lambda>x. x / l2_norm m) m) = 1"
      by simp
    with n have "is_normalized_mean (l2_normalize m) embs"
      by (simp add: is_normalized_mean_def m_def[symmetric])
    with False cc show ?thesis by (simp add: m_def[symmetric])
  qed
qed

lemma is_normalized_mean_unit: "l2_norm e = 1 \<Longrightarrow> is_normalized_mean e [e]"
  by (simp add: is_normalized_mean_def mean_vec_def)

lemma no_normalized_mean: "l2_norm (mean_vec embs) = 0 \<Longrightarrow> \<not> is_normalized_mean c embs"
proof
  assume z: "l2_norm (mean_vec embs) = 0" and n: "is_normalized_mean c embs"
  from n have u: "l2_norm c = 1" unfolding is_normalized_mean_def by (rule conjunct1)
  from n have "c = map (\<lambda>x. x / l2_norm (mean_vec embs)) (mean_vec embs)"
    unfolding is_normalized_mean_def by (rule conjunct2)
  with z have c: "c = map (\<lambda>x. 0) (mean_vec embs)" by simp
  have "(\<Sum>x\<leftarrow>map (\<lambda>x. 0 :: real) (mean_vec embs). x * x) = 0"
    by (induction "mean_vec embs") (simp_all add: comp_def)
  then have "l2_norm c = 0" unfolding c by (simp add: l2_norm_def)
  with u show False by simp
qed

text \<open>
  Claim C3, where the member embeddings add up to the zero vector. The catch-all cluster
  made of four one-tab clusters with the embeddings (1, 0), (-1, 0), (0, 1) and (0, -1),
  each of norm 1, has the centroid (0, 0): \<^verbatim>\<open>computeCentroid\<close> divides the sum by its
  magnitude only where the magnitude is positive. The zero vector has norm 0, and the
  mean of the four embeddings, of norm 0, has no normalised mean.
\<close>

theorem centroid_zero_sum_counterexample:
  "map embedding (items (createMiscCluster ex_opposed)) = [[1, 0], [-1, 0], [0, 1], [0, -1]] \<and>
   centroid (createMiscCluster ex_opposed) = Some [0, 0] \<and>
   l2_norm [0, 0] = 0 \<and>
   l2_norm (mean_vec [[1, 0], [-1, 0], [0, 1], [0, -1]]) = 0 \<and>
   \<not> is_normalized_mean [0, 0] [[1, 0], [-1, 0], [0, 1], [0, -1]]"
proof -
  have m: "mean_vec [[1, 0], [-1, 0], [0, 1], [0, -1]] = [0, 0]"
    by (simp add: mean_vec_def vec_add_def)
  have z: "l2_norm [0, 0] = 0" by (simp add: l2_norm_def)
  have i: "map embedding (items (createMiscCluster ex_opposed)) =
      [[1, 0], [-1, 0], [0, 1], [0, -1]]"
    and e: "embeddings (createMiscCluster ex_opposed) = [[1, 0], [-1, 0], [0, 1], [0, -1]]"
    and c: "centroid (createMiscCluster ex_opposed) =
      computeCentroid [[1, 0], [-1, 0], [0, 1], [0, -1]]"
    by (simp_all add: createMiscCluster_def ex_opposed_def ex_east_def ex_west_def
        initialCluster_def ex_tab_def)
  have "2 \<le> length [[1, 0], [-1, 0], [0, 1], [0, -1 :: real]]"
    "\<forall>e \<in> set [[1, 0], [-1, 0], [0, 1], [0, -1 :: real]]. length e = 2" by simp_all
  from computeCentroid_mean_cases[OF this]
  have "computeCentroid [[1, 0], [-1, 0], [0, 1], [0, -1]] = Some (replicate 2 0)"
    by (simp add: m z)
  then have k: "centroid (createMiscCluster ex_opposed) = Some [0, 0]"
    by (simp add: c numeral_2_eq_2)
  have "\<not> is_normalized_mean [0, 0] [[1, 0], [-1, 0], [0, 1], [0, -1]]"
    by (rule no_normalized_mean) (simp add: m z)
  with i k z m show ?thesis by simp
qed

text \<open>
  Claim C3, amended. A cluster made for one tab has that tab as its one member and the
  tab's embedding as its centroid (the normalised mean of the one embedding when that
  has norm 1, as the embeddings of the model have). \<^verbatim>\<open>mergeClusters\<close> makes a cluster
  whose members are those of the first cluster followed by those of the second,
  \<^verbatim>\<open>absorbIntoCluster\<close> adds the members of the absorbed cluster \<open>c1\<close> after those of
  the target \<open>c2\<close>, and \<^verbatim>\<open>createMiscCluster\<close> joins the members of all orphans. In each
  case the new cluster holds the embeddings of exactly these members, and its centroid is
  the normalised mean of these embeddings when their mean is not of norm 0, and the zero
  vector when it is. This is for clusters that have a member each, hold their members'
  embeddings, and whose embeddings have one dimension \<open>d\<close>. Arithmetic is exact here;
  the rounding of \<^verbatim>\<open>Float32Array\<close> is not modelled.
\<close>

theorem centroid_is_normalized_mean:
  assumes members: "embeddings c1 = map embedding (items c1)" "embeddings c2 = map embedding (items c2)"
      "\<forall>orphan \<in> set orphans. embeddings orphan = map embedding (items orphan)"
    and nonempty: "items c1 \<noteq> []" "items c2 \<noteq> []" "2 \<le> length orphans"
      "\<forall>orphan \<in> set orphans. items orphan \<noteq> []"
    and dims: "\<forall>item \<in> set (items c1 @ items c2 @ concat (map items orphans)). length (embedding item) = d"
  shows "items (initialCluster tv idx) = [tv] \<and>
         embeddings (initialCluster tv idx) = [embedding tv] \<and>
         centroid (initialCluster tv idx) = Some (embedding tv) \<and>
         (l2_norm (embedding tv) = 1 \<longrightarrow> is_normalized_mean (embedding tv) [embedding tv]) \<and>
         items (mergeClusters c1 c2) = items c1 @ items c2 \<and>
         embeddings (mergeClusters c1 c2) = map embedding (items c1 @ items c2) \<and>
         (\<exists>c. centroid (mergeClusters c1 c2) = Some c \<and>
              (if l2_norm (mean_vec (map embedding (items c1 @ items c2))) = 0
               then c = replicate d 0
               else is_normalized_mean c (map embedding (items c1 @ items c2)))) \<and>
         items (absorbIntoCluster c1 c2) = items c2 @ items c1 \<and>
         embeddings (absorbIntoCluster c1 c2) = map embedding (items c2 @ items c1) \<and>
         (\<exists>c. centroid (absorbIntoCluster c1 c2) = Some c \<and>
              (if l2_norm (mean_vec (map embedding (items c2 @ items c1))) = 0
               then c = replicate d 0
               else is_normalized_mean c (map embedding (items c2 @ items c1)))) \<and>
         items (createMiscCluster orphans) = concat (map items orphans) \<and>
         embeddings (createMiscCluster orphans) = map embedding (concat (map items orphans)) \<and>
         (\<exists>c. centroid (createMiscCluster orphans) = Some c \<and>
              (if l2_norm (mean_vec (map embedding (concat (map items orphans)))) = 0
               then c = replicate d 0
               else is_normalized_mean c (map embedding (concat (map items orphans)))))"
proof -
  have l1: "1 \<le> length (items c1)" "1 \<le> length (items c2)"
    using nonempty(1,2) by (simp_all add: Suc_le_eq)
  have d12: "\<forall>e \<in> set (map embedding (items c1 @ items c2)). length e = d"
    and d21: "\<forall>e \<in> set (map embedding (items c2 @ items c1)). length e = d"
    and dor: "\<forall>e \<in> set (map embedding (concat (map items orphans))). length e = d"
    using dims by auto
  have n12: "2 \<le> length (map embedding (items c1 @ items c2))"
    and n21: "2 \<le> length (map embedding (items c2 @ items c1))"
    using l1 by simp_all
  have i: "items (initialCluster tv idx) = [tv]"
    "embeddings (initialCluster tv idx) = [embedding tv]"
    "centroid (initialCluster tv idx) = Some (embedding tv)"
    by (simp_all add: initialCluster_def)
  have u: "l2_norm (embedding tv) = 1 \<longrightarrow> is_normalized_mean (embedding tv) [embedding tv]"
    by (simp add: is_normalized_mean_unit)
  have mi: "items (mergeClusters c1 c2) = items c1 @ items c2"
    and me: "embeddings (mergeClusters c1 c2) = map embedding (items c1 @ items c2)"
    and mc: "centroid (mergeClusters c1 c2) =
      computeCentroid (map embedding (items c1 @ items c2))"
    by (simp_all add: mergeClusters_def Let_def members)
  have ai: "items (absorbIntoCluster c1 c2) = items c2 @ items c1"
    and ae: "embeddings (absorbIntoCluster c1 c2) = map embedding (items c2 @ items c1)"
    and ac: "centroid (absorbIntoCluster c1 c2) =
      computeCentroid (map embedding (items c2 @ items c1))"
    by (simp_all add: absorbIntoCluster_def Let_def members)
  have emb: "concat (map embeddings orphans) = map embedding (concat (map items orphans))"
    using members(3) by (induction orphans) auto
  have oi: "items (createMiscCluster orphans) = concat (map items orphans)"
    and oe: "embeddings (createMiscCluster orphans) =
      map embedding (concat (map items orphans))"
    and oc: "centroid (createMiscCluster orphans) =
      computeCentroid (map embedding (concat (map items orphans)))"
    by (simp_all add: createMiscCluster_def emb)
  have "length orphans \<le> length (concat (map items orphans))"
    using nonempty(4)
  proof (induction orphans)
    case Nil
    then show ?case by simp
  next
    case (Cons orphan orphans)
    then have "1 \<le> length (items orphan)" by (simp add: Suc_le_eq)
    with Cons show ?case by simp
  qed
  with nonempty(3) have nor: "2 \<le> length (map embedding (concat (map items orphans)))"
    by simp
  note m = computeCentroid_mean_cases[OF n12 d12, folded mc]
  note a = computeCentroid_mean_cases[OF n21 d21, folded ac]
  note c = computeCentroid_mean_cases[OF nor dor, folded oc]
  show ?thesis using i u mi me m ai ae a oi oe c by (intro conjI)
qed

lemma ex_mean:
  "mean_vec [[1, 0], [7 / 25, 24 / 25]] = [16 / 25, 12 / 25]"
  "mean_vec [[7 / 25, 24 / 25], [1, 0]] = [16 / 25, 12 / 25]"
  "l2_norm [16 / 25, 12 / 25] = 4 / 5"
  "l2_norm [4 / 5, 3 / 5] = 1"
  "mean_vec [[1, 0], [-1, 0]] = [0, 0]"
  "l2_norm [0, 0] = 0"
proof -
  show "mean_vec [[1, 0], [7 / 25, 24 / 25]] = [16 / 25, 12 / 25]"
    "mean_vec [[7 / 25, 24 / 25], [1, 0]] = [16 / 25, 12 / 25]"
    "mean_vec [[1, 0], [-1, 0]] = [0, 0]"
    by (simp_all add: mean_vec_def vec_add_def)
  have "sqrt ((16 / 25) * (16 / 25) + 12 / 25 * (12 / 25)) = (4 / 5 :: real)"
    by (rule real_sqrt_unique) (simp_all add: power2_eq_square)
  then show "l2_norm [16 / 25, 12 / 25] = 4 / 5"
    by (simp add: l2_norm_def)
  have "sqrt ((4 / 5) * (4 / 5) + 3 / 5 * (3 / 5)) = (1 :: real)"
    by (rule real_sqrt_unique) (simp_all add: power2_eq_square)
  then show "l2_norm [4 / 5, 3 / 5] = 1"
    by (simp add: l2_norm_def)
  show "l2_norm [0, 0] = 0" by (simp add: l2_norm_def)
qed

theorem centroid_is_normalized_mean_witness:
  "items (mergeClusters ex_c1 ex_c2) =
     [ex_tab 1 ''a.com'' [1, 0], ex_tab 2 ''b.com'' [7 / 25, 24 / 25]] \<and>
   centroid (mergeClusters ex_c1 ex_c2) = Some [4 / 5, 3 / 5] \<and>
   items (absorbIntoCluster ex_c1 ex_c2) =
     [ex_tab 2 ''b.com'' [7 / 25, 24 / 25], ex_tab 1 ''a.com'' [1, 0]] \<and>
   centroid (absorbIntoCluster ex_c1 ex_c2) = Some [4 / 5, 3 / 5] \<and>
   items (createMiscCluster [ex_c1, ex_c2]) =
     [ex_tab 1 ''a.com'' [1, 0], ex_tab 2 ''b.com'' [7 / 25, 24 / 25]] \<and>
   centroid (createMiscCluster [ex_c1, ex_c2]) = Some [4 / 5, 3 / 5] \<and>
   l2_norm [4 / 5, 3 / 5] = 1 \<and>
   centroid (mergeClusters ex_east ex_west) = Some [0, 0]"
proof -
  have h: "embeddings ex_c1 = map embedding (items ex_c1)"
    "embeddings ex_c2 = map embedding (items ex_c2)"
    "\<forall>orphan \<in> set [ex_c1, ex_c2]. embeddings orphan = map embedding (items orphan)"
    "items ex_c1 \<noteq> []" "items ex_c2 \<noteq> []" "2 \<le> length [ex_c1, ex_c2]"
    "\<forall>orphan \<in> set [ex_c1, ex_c2]. items orphan \<noteq> []"
    "\<forall>item \<in> set (items ex_c1 @ items ex_c2 @ concat (map items [ex_c1, ex_c2])).
       length (embedding item) = 2"
    by (simp_all add: ex_c1_def ex_c2_def initialCluster_def ex_tab_def)
  have k: "embeddings ex_east = map embedding (items ex_east)"
    "embeddings ex_west = map embedding (items ex_west)"
    "\<forall>orphan \<in> set [ex_east, ex_west]. embeddings orphan = map embedding (items orphan)"
    "items ex_east \<noteq> []" "items ex_west \<noteq> []" "2 \<le> length [ex_east, ex_west]"
    "\<forall>orphan \<in> set [ex_east, ex_west]. items orphan \<noteq> []"
    "\<forall>item \<in> set (items ex_east @ items ex_west @ concat (map items [ex_east, ex_west])).
       length (embedding item) = 2"
    by (simp_all add: ex_east_def ex_west_def initialCluster_def ex_tab_def)
  have i: "items ex_c1 = [ex_tab 1 ''a.com'' [1, 0]]"
    "items ex_c2 = [ex_tab 2 ''b.com'' [7 / 25, 24 / 25]]"
    "items ex_east = [ex_tab 1 ''a.com'' [1, 0]]"
    "items ex_west = [ex_tab 2 ''b.com'' [-1, 0]]"
    by (simp_all add: ex_c1_def ex_c2_def ex_east_def ex_west_def initialCluster_def)
  have e: "embedding (ex_tab n host emb) = emb" for n host emb by (simp add: ex_tab_def)
  have v: "c = [4 / 5, 3 / 5]" if "is_normalized_mean c [[1, 0], [7 / 25, 24 / 25]]" for c
    using that by (simp add: is_normalized_mean_def ex_mean)
  have w: "c = [4 / 5, 3 / 5]" if "is_normalized_mean c [[7 / 25, 24 / 25], [1, 0]]" for c
    using that by (simp add: is_normalized_mean_def ex_mean)
  from centroid_is_normalized_mean[OF h, of undefined 0]
  have "items (mergeClusters ex_c1 ex_c2) =
       [ex_tab 1 ''a.com'' [1, 0], ex_tab 2 ''b.com'' [7 / 25, 24 / 25]] \<and>
     centroid (mergeClusters ex_c1 ex_c2) = Some [4 / 5, 3 / 5] \<and>
     items (absorbIntoCluster ex_c1 ex_c2) =
       [ex_tab 2 ''b.com'' [7 / 25, 24 / 25], ex_tab 1 ''a.com'' [1, 0]] \<and>
     centroid (absorbIntoCluster ex_c1 ex_c2) = Some [4 / 5, 3 / 5] \<and>
     items (createMiscCluster [ex_c1, ex_c2]) =
       [ex_tab 1 ''a.com'' [1, 0], ex_tab 2 ''b.com'' [7 / 25, 24 / 25]] \<and>
     centroid (createMiscCluster [ex_c1, ex_c2]) = Some [4 / 5, 3 / 5]"
    by (auto simp: i e ex_mean dest: v w)
  moreover from centroid_is_normalized_mean[OF k, of undefined 0]
  have "centroid (mergeClusters ex_east ex_west) = Some [0, 0]"
    by (auto simp: i e ex_mean numeral_2_eq_2)
  ultimately show ?thesis by (simp add: ex_mean)
qed

section \<open>Members through the pipeline\<close>

lemma member_field_indices: "member_field indices"
  by (simp add: member_field_def absorbIntoCluster_def cloneCluster_def createMiscCluster_def
      mergeClusters_def Let_def)

lemma member_field_items: "member_field items"
  by (simp add: member_field_def absorbIntoCluster_def cloneCluster_def createMiscCluster_def
      mergeClusters_def Let_def)

lemma members_Nil: "members f [] = {#}"
  by (simp add: members_def)

lemma members_Cons: "members f (c # cs) = mset (f c) + members f cs"
  by (simp add: members_def)

lemma members_append: "members f (xs @ ys) = members f xs + members f ys"
  by (simp add: members_def)

lemma members_sum: "members f cs = \<Sum>\<^sub># (image_mset (\<lambda>c. mset (f c)) (mset cs))"
  by (induction cs) (simp_all add: members_Nil members_Cons)

lemma members_cong: "mset xs = mset ys \<Longrightarrow> members f xs = members f ys"
  by (simp add: members_sum)

lemma members_update:
  assumes "k < length cs"
  shows "members f (cs[k := c]) + mset (f (cs ! k)) = members f cs + mset (f c)"
proof -
  have "cs = take k cs @ cs ! k # drop (Suc k) cs"
    using assms by (simp add: id_take_nth_drop[symmetric])
  then have "members f cs = members f (take k cs) + mset (f (cs ! k)) + members f (drop (Suc k) cs)"
    by (metis members_append members_Cons add.assoc)
  moreover have "members f (cs[k := c]) = members f (take k cs) + mset (f c) + members f (drop (Suc k) cs)"
    using assms by (simp add: upd_conv_take_nth_drop members_append members_Cons)
  ultimately show ?thesis by simp
qed

lemma members_absorb:
  assumes "member_field f" "k < length cs"
  shows "members f (cs[k := absorbIntoCluster s (cs ! k)]) = members f cs + mset (f s)"
proof -
  from assms(1) have "f (absorbIntoCluster s (cs ! k)) = f (cs ! k) @ f s"
    by (simp add: member_field_def)
  with members_update[OF assms(2), of f "absorbIntoCluster s (cs ! k)"] show ?thesis by simp
qed

lemma members_filter:
  "members f (filter P cs) + members f (filter (\<lambda>c. \<not> P c) cs) = members f cs"
  by (induction cs) (simp_all add: members_Nil members_Cons)

lemma members_removePair:
  assumes "member_field f" "i < j" "j < length cs"
  shows "members f (removePair i j cs @ [mergeClusters (cs ! i) (cs ! j)]) = members f cs"
proof -
  have "members f (removePair i j cs @ [mergeClusters (cs ! i) (cs ! j)]) =
      members f (removePair i j cs @ [cs ! i, cs ! j])"
    using assms(1) by (simp add: members_append members_Cons members_Nil member_field_def)
  also have "\<dots> = members f cs"
    by (rule members_cong) (use mset_removePair[OF assms(2,3)] in simp)
  finally show ?thesis .
qed

lemma computeCentroid_None_iff: "computeCentroid embs = None \<longleftrightarrow> embs = []"
  by (simp add: computeCentroid_def Let_def split: list.splits)

lemma populated_initialCluster: "populated (initialCluster tv idx)"
  by (simp add: populated_def initialCluster_def)

lemma populated_mergeClusters: "populated a \<Longrightarrow> populated (mergeClusters a b)"
  by (simp add: populated_def mergeClusters_def Let_def computeCentroid_None_iff)

lemma populated_absorbIntoCluster: "populated t \<Longrightarrow> populated (absorbIntoCluster s t)"
  by (simp add: populated_def absorbIntoCluster_def Let_def computeCentroid_None_iff)

lemma populated_cloneCluster: "populated c \<Longrightarrow> populated (cloneCluster c)"
  by (simp add: populated_def cloneCluster_def)

lemma populated_createMiscCluster:
  assumes "os \<noteq> []" "\<forall>c \<in> set os. populated c"
  shows "populated (createMiscCluster os)"
proof -
  from assms obtain c cs where "os = c # cs" "populated c" by (cases os) auto
  then show ?thesis
    by (simp add: populated_def createMiscCluster_def computeCentroid_None_iff)
qed

lemma set_removePair: "set (removePair i j cs) \<subseteq> set cs"
  by (auto simp: removePair_def dest: set_zip_rightD)

lemma mergeStep_members:
  assumes "member_field f" "mergeStep M tg thr cs = Some cs'"
  shows "members f cs' = members f cs"
proof -
  from mergeStep_Some[OF assms(2)] obtain i j where "i < j" "j < length cs"
    "cs' = removePair i j cs @ [mergeClusters (cs ! i) (cs ! j)]" by blast
  then show ?thesis using members_removePair[OF assms(1)] by simp
qed

lemma mergeStep_populated:
  assumes "mergeStep M tg thr cs = Some cs'" "\<forall>c \<in> set cs. populated c"
  shows "\<forall>c \<in> set cs'. populated c"
proof -
  from mergeStep_Some[OF assms(1)] obtain i j where ij: "i < j" "j < length cs"
    and cs': "cs' = removePair i j cs @ [mergeClusters (cs ! i) (cs ! j)]" by blast
  from ij assms(2) have "populated (cs ! i)" by simp
  then have "populated (mergeClusters (cs ! i) (cs ! j))" by (rule populated_mergeClusters)
  with assms(2) set_removePair[of i j cs] show ?thesis unfolding cs' by auto
qed

lemma mergeLoop_members:
  "member_field f \<Longrightarrow> members f (mergeLoop M tg thr cs) = members f cs"
proof (induction M tg thr cs rule: mergeLoop.induct)
  case (1 M tg thr cs)
  show ?case
  proof (cases "mergeStep M tg thr cs")
    case None
    then show ?thesis by (simp add: mergeLoop.simps)
  next
    case (Some cs')
    from "1.IH"[OF Some "1.prems"] mergeStep_members[OF "1.prems" Some] Some
    show ?thesis by (subst mergeLoop.simps) simp
  qed
qed

lemma mergeLoop_populated:
  "\<forall>c \<in> set cs. populated c \<Longrightarrow> \<forall>c \<in> set (mergeLoop M tg thr cs). populated c"
proof (induction M tg thr cs rule: mergeLoop.induct)
  case (1 M tg thr cs)
  show ?case
  proof (cases "mergeStep M tg thr cs")
    case None
    with "1.prems" show ?thesis by (simp add: mergeLoop.simps)
  next
    case (Some cs')
    from "1.IH"[OF Some mergeStep_populated[OF Some "1.prems"]] Some
    show ?thesis by (subst mergeLoop.simps) simp
  qed
qed

lemma initial_members:
  "members indices (map (\<lambda>(idx, tv). initialCluster tv idx) (zip [k..<k + length tvs] tvs)) =
     mset [k..<k + length tvs] \<and>
   members items (map (\<lambda>(idx, tv). initialCluster tv idx) (zip [k..<k + length tvs] tvs)) =
     mset tvs"
proof (induction tvs arbitrary: k)
  case Nil
  then show ?case by (simp add: members_Nil)
next
  case (Cons tv tvs)
  have "[k..<k + Suc (length tvs)] = k # [Suc k..<k + Suc (length tvs)]"
    by (rule upt_conv_Cons) simp
  then have u: "[k..<k + length (tv # tvs)] = k # [Suc k..<Suc k + length tvs]"
    by simp
  from Cons[of "Suc k"] show ?case
    unfolding u by (simp add: members_Cons initialCluster_def)
qed

lemma agglomerativeClustering_members:
  "members indices (agglomerativeClustering cfg tvs M tg) = mset [0..<length tvs]"
  "members items (agglomerativeClustering cfg tvs M tg) = mset tvs"
  using initial_members[of 0 tvs]
  by (simp_all add: agglomerativeClustering_def Let_def mergeLoop_members
      member_field_indices member_field_items)

lemma agglomerativeClustering_populated:
  "\<forall>c \<in> set (agglomerativeClustering cfg tvs M tg). populated c"
  unfolding agglomerativeClustering_def Let_def
  by (rule mergeLoop_populated) (auto simp: populated_initialCluster)

lemma centroidSimilarity_total:
  "centroid s \<noteq> None \<Longrightarrow> centroid c \<noteq> None \<Longrightarrow>
   \<exists>x. centroidSimilarity (centroid s) (centroid c) = Inr x"
  by (auto simp: centroidSimilarity_def)

lemma bestClusterScan_index:
  "bestClusterScan cfg s cs k (b, sc) = Inr (Some i, sc') \<Longrightarrow>
   b = Some i \<or> (k \<le> i \<and> i < k + length cs)"
proof (induction cs arbitrary: k b sc)
  case Nil
  then show ?case by simp
next
  case (Cons c cs)
  from Cons.prems obtain sim item0 rest where
    "centroidSimilarity (centroid s) (centroid c) = Inr sim" and "items s = item0 # rest"
    by (auto split: sum.splits list.splits)
  with Cons.prems obtain b' acc where
    r: "bestClusterScan cfg s cs (Suc k) (b', acc) = Inr (Some i, sc')"
    and b': "b' = Some k \<or> b' = b"
    by (auto simp: Let_def split: if_splits)
  from Cons.IH[OF r] b' show ?case by auto
qed

lemma bestClusterScan_total:
  assumes "centroid s \<noteq> None" "items s \<noteq> []" "\<forall>c \<in> set cs. centroid c \<noteq> None"
  shows "\<exists>r. bestClusterScan cfg s cs k best = Inr r"
  using assms(3)
proof (induction cs arbitrary: k best)
  case Nil
  then show ?case by simp
next
  case (Cons c cs)
  obtain b sc where best: "best = (b, sc)" by (cases best)
  from Cons.prems assms(1) obtain sim where
    sim: "centroidSimilarity (centroid s) (centroid c) = Inr sim"
    using centroidSimilarity_total[of s c] by auto
  from assms(2) obtain item0 rest where it: "items s = item0 # rest" by (cases "items s") auto
  from Cons.prems have "\<forall>c \<in> set cs. centroid c \<noteq> None" by simp
  from Cons.IH[OF this] show ?case by (simp add: best sim it Let_def)
qed

lemma closestScan_index:
  "closestScan s cs k (b, sc) = Inr (Some i, sc') \<Longrightarrow>
   b = Some i \<or> (k \<le> i \<and> i < k + length cs)"
proof (induction cs arbitrary: k b sc)
  case Nil
  then show ?case by simp
next
  case (Cons c cs)
  from Cons.prems obtain sim where "centroidSimilarity (centroid s) (centroid c) = Inr sim"
    by (auto split: sum.splits)
  with Cons.prems obtain b' acc where
    r: "closestScan s cs (Suc k) (b', acc) = Inr (Some i, sc')"
    and b': "b' = Some k \<or> b' = b"
    by (auto split: if_splits)
  from Cons.IH[OF r] b' show ?case by auto
qed

lemma closestScan_total:
  assumes "centroid s \<noteq> None" "\<forall>c \<in> set cs. centroid c \<noteq> None"
  shows "\<exists>r. closestScan s cs k best = Inr r"
  using assms(2)
proof (induction cs arbitrary: k best)
  case Nil
  then show ?case by simp
next
  case (Cons c cs)
  obtain b sc where best: "best = (b, sc)" by (cases best)
  from Cons.prems assms(1) obtain sim where
    sim: "centroidSimilarity (centroid s) (centroid c) = Inr sim"
    using centroidSimilarity_total[of s c] by auto
  from Cons.prems have "\<forall>c \<in> set cs. centroid c \<noteq> None" by simp
  from Cons.IH[OF this] show ?case by (simp add: best sim)
qed

text \<open>What one pass of the outer loop of pass 1 does to the working list.\<close>

lemma clusterSingletonsLoop_step:
  assumes "clusterSingletonsLoop cfg (s # ss) cs = Inr out"
  shows "(\<exists>k < length cs. clusterSingletonsLoop cfg ss (cs[k := absorbIntoCluster s (cs ! k)]) = Inr out)
       \<or> clusterSingletonsLoop cfg ss (cs @ [cloneCluster s]) = Inr out"
proof -
  from assms obtain b sc where scan: "bestClusterScan cfg s cs 0 (None, -1) = Inr (b, sc)"
    by (auto split: sum.splits)
  show ?thesis
  proof (cases b)
    case None
    with assms scan show ?thesis by simp
  next
    case (Some k)
    with scan bestClusterScan_index[of cfg s cs 0 None "-1" k sc] have "k < length cs" by simp
    with assms scan Some show ?thesis by (auto split: if_splits)
  qed
qed

lemma clusterSingletonsLoop_members:
  assumes "member_field f"
  shows "clusterSingletonsLoop cfg ss cs = Inr out \<Longrightarrow> members f out = members f cs + members f ss"
proof (induction ss arbitrary: cs)
  case Nil
  then show ?case by (simp add: members_Nil)
next
  case (Cons s ss)
  from assms have cl: "f (cloneCluster s) = f s" by (simp add: member_field_def)
  from clusterSingletonsLoop_step[OF Cons.prems] show ?case
  proof
    assume "\<exists>k < length cs. clusterSingletonsLoop cfg ss (cs[k := absorbIntoCluster s (cs ! k)]) = Inr out"
    then obtain k where k: "k < length cs"
      and r: "clusterSingletonsLoop cfg ss (cs[k := absorbIntoCluster s (cs ! k)]) = Inr out" by blast
    from Cons.IH[OF r] members_absorb[OF assms k] show ?thesis by (simp add: members_Cons)
  next
    assume "clusterSingletonsLoop cfg ss (cs @ [cloneCluster s]) = Inr out"
    from Cons.IH[OF this] show ?thesis
      by (simp add: members_Cons members_append members_Nil cl)
  qed
qed

lemma clusterSingletonsLoop_preserves:
  assumes absorb: "\<And>s t. P t \<Longrightarrow> P (absorbIntoCluster s t)"
    and clone: "\<And>c. P c \<Longrightarrow> P (cloneCluster c)"
  shows "clusterSingletonsLoop cfg ss cs = Inr out \<Longrightarrow> \<forall>c \<in> set cs. P c \<Longrightarrow>
     \<forall>c \<in> set ss. P c \<Longrightarrow> \<forall>c \<in> set out. P c"
proof (induction ss arbitrary: cs)
  case Nil
  then show ?case by simp
next
  case (Cons s ss)
  from Cons.prems(3) have ss: "\<forall>c \<in> set ss. P c" and s: "P s" by simp_all
  from clusterSingletonsLoop_step[OF Cons.prems(1)] show ?case
  proof
    assume "\<exists>k < length cs. clusterSingletonsLoop cfg ss (cs[k := absorbIntoCluster s (cs ! k)]) = Inr out"
    then obtain k where k: "k < length cs"
      and r: "clusterSingletonsLoop cfg ss (cs[k := absorbIntoCluster s (cs ! k)]) = Inr out" by blast
    from k Cons.prems(2) have "P (absorbIntoCluster s (cs ! k))" by (simp add: absorb)
    with Cons.prems(2) have "\<forall>c \<in> set (cs[k := absorbIntoCluster s (cs ! k)]). P c"
      using set_update_subset_insert[of cs k "absorbIntoCluster s (cs ! k)"] by auto
    from Cons.IH[OF r this ss] show ?thesis .
  next
    assume r: "clusterSingletonsLoop cfg ss (cs @ [cloneCluster s]) = Inr out"
    from Cons.prems(2) s have "\<forall>c \<in> set (cs @ [cloneCluster s]). P c" by (simp add: clone)
    from Cons.IH[OF r this ss] show ?thesis .
  qed
qed

lemma clusterSingletonsLoop_total:
  "\<forall>c \<in> set cs. populated c \<Longrightarrow> \<forall>c \<in> set ss. populated c \<Longrightarrow>
   \<exists>out. clusterSingletonsLoop cfg ss cs = Inr out"
proof (induction ss arbitrary: cs)
  case Nil
  then show ?case by simp
next
  case (Cons s ss)
  from Cons.prems(2) have ss: "\<forall>c \<in> set ss. populated c" and s: "populated s" by simp_all
  from s Cons.prems(1) obtain b sc where
    scan: "bestClusterScan cfg s cs 0 (None, -1) = Inr (b, sc)"
    using bestClusterScan_total[of s cs cfg 0 "(None, -1)"] by (auto simp: populated_def)
  have app: "\<exists>out. clusterSingletonsLoop cfg ss (cs @ [cloneCluster s]) = Inr out"
    using Cons.prems(1) s by (intro Cons.IH ss) (simp add: populated_cloneCluster)
  show ?case
  proof (cases b)
    case None
    with scan app show ?thesis by simp
  next
    case (Some k)
    with scan bestClusterScan_index[of cfg s cs 0 None "-1" k sc] have k: "k < length cs" by simp
    with Cons.prems(1) have "populated (absorbIntoCluster s (cs ! k))"
      by (simp add: populated_absorbIntoCluster)
    with Cons.prems(1) have "\<forall>c \<in> set (cs[k := absorbIntoCluster s (cs ! k)]). populated c"
      using set_update_subset_insert[of cs k "absorbIntoCluster s (cs ! k)"] by auto
    from Cons.IH[OF this ss] scan Some app show ?thesis by simp
  qed
qed

text \<open>What one pass of the loop of pass 2 does.\<close>

lemma absorbOrphans_step:
  assumes "absorbOrphans cfg (orphan # os) m fo = Inr r"
  shows "(\<exists>k < length m. absorbOrphans cfg os (m[k := absorbIntoCluster orphan (m ! k)]) fo = Inr r)
       \<or> absorbOrphans cfg os m (fo @ [orphan]) = Inr r"
proof -
  from assms obtain b sc where scan: "closestScan orphan m 0 (None, -1) = Inr (b, sc)"
    by (auto simp: findClosestCluster_def split: sum.splits)
  show ?thesis
  proof (cases b)
    case None
    with assms scan show ?thesis by (simp add: findClosestCluster_def)
  next
    case (Some k)
    with scan closestScan_index[of orphan m 0 None "-1" k sc] have "k < length m" by simp
    with assms scan Some show ?thesis by (auto simp: findClosestCluster_def split: if_splits)
  qed
qed

lemma absorbOrphans_members:
  assumes "member_field f"
  shows "absorbOrphans cfg os m fo = Inr (m', fo') \<Longrightarrow>
     members f m' + members f fo' = members f m + members f fo + members f os"
proof (induction os arbitrary: m fo)
  case Nil
  then show ?case by (simp add: members_Nil)
next
  case (Cons orphan os)
  from absorbOrphans_step[OF Cons.prems] show ?case
  proof
    assume "\<exists>k < length m. absorbOrphans cfg os (m[k := absorbIntoCluster orphan (m ! k)]) fo = Inr (m', fo')"
    then obtain k where k: "k < length m"
      and r: "absorbOrphans cfg os (m[k := absorbIntoCluster orphan (m ! k)]) fo = Inr (m', fo')"
      by blast
    from Cons.IH[OF r] members_absorb[OF assms k] show ?thesis by (simp add: members_Cons)
  next
    assume "absorbOrphans cfg os m (fo @ [orphan]) = Inr (m', fo')"
    from Cons.IH[OF this] show ?thesis
      by (simp add: members_Cons members_append members_Nil)
  qed
qed

lemma absorbOrphans_preserves:
  assumes absorb: "\<And>s t. P t \<Longrightarrow> P (absorbIntoCluster s t)"
  shows "absorbOrphans cfg os m fo = Inr (m', fo') \<Longrightarrow> \<forall>c \<in> set m. P c \<Longrightarrow> \<forall>c \<in> set m'. P c"
proof (induction os arbitrary: m fo)
  case Nil
  then show ?case by simp
next
  case (Cons orphan os)
  from absorbOrphans_step[OF Cons.prems(1)] show ?case
  proof
    assume "\<exists>k < length m. absorbOrphans cfg os (m[k := absorbIntoCluster orphan (m ! k)]) fo = Inr (m', fo')"
    then obtain k where k: "k < length m"
      and r: "absorbOrphans cfg os (m[k := absorbIntoCluster orphan (m ! k)]) fo = Inr (m', fo')"
      by blast
    from k Cons.prems(2) have "P (absorbIntoCluster orphan (m ! k))" by (simp add: absorb)
    with Cons.prems(2) have "\<forall>c \<in> set (m[k := absorbIntoCluster orphan (m ! k)]). P c"
      using set_update_subset_insert[of m k "absorbIntoCluster orphan (m ! k)"] by auto
    from Cons.IH[OF r this] show ?thesis .
  next
    assume "absorbOrphans cfg os m (fo @ [orphan]) = Inr (m', fo')"
    from Cons.IH[OF this Cons.prems(2)] show ?thesis .
  qed
qed

lemma absorbOrphans_orphans:
  "absorbOrphans cfg os m fo = Inr (m', fo') \<Longrightarrow> set fo' \<subseteq> set fo \<union> set os"
proof (induction os arbitrary: m fo)
  case Nil
  then show ?case by simp
next
  case (Cons orphan os)
  from absorbOrphans_step[OF Cons.prems] show ?case
  proof
    assume "\<exists>k < length m. absorbOrphans cfg os (m[k := absorbIntoCluster orphan (m ! k)]) fo = Inr (m', fo')"
    then obtain k where
      "absorbOrphans cfg os (m[k := absorbIntoCluster orphan (m ! k)]) fo = Inr (m', fo')"
      by blast
    from Cons.IH[OF this] show ?thesis by auto
  next
    assume "absorbOrphans cfg os m (fo @ [orphan]) = Inr (m', fo')"
    from Cons.IH[OF this] show ?thesis by auto
  qed
qed

lemma absorbOrphans_total:
  "\<forall>c \<in> set os. populated c \<Longrightarrow> \<forall>c \<in> set m. populated c \<Longrightarrow>
   \<exists>r. absorbOrphans cfg os m fo = Inr r"
proof (induction os arbitrary: m fo)
  case Nil
  then show ?case by simp
next
  case (Cons orphan os)
  from Cons.prems(1) have os: "\<forall>c \<in> set os. populated c" and o: "populated orphan" by simp_all
  from o Cons.prems(2) obtain b sc where
    scan: "closestScan orphan m 0 (None, -1) = Inr (b, sc)"
    using closestScan_total[of orphan m 0 "(None, -1)"] by (auto simp: populated_def)
  have app: "\<exists>r. absorbOrphans cfg os m (fo @ [orphan]) = Inr r"
    by (rule Cons.IH[OF os Cons.prems(2)])
  show ?case
  proof (cases b)
    case None
    with scan app show ?thesis by (simp add: findClosestCluster_def)
  next
    case (Some k)
    with scan closestScan_index[of orphan m 0 None "-1" k sc] have k: "k < length m" by simp
    with Cons.prems(2) have "populated (absorbIntoCluster orphan (m ! k))"
      by (simp add: populated_absorbIntoCluster)
    with Cons.prems(2) have "\<forall>c \<in> set (m[k := absorbIntoCluster orphan (m ! k)]). populated c"
      using set_update_subset_insert[of m k "absorbIntoCluster orphan (m ! k)"] by auto
    from Cons.IH[OF os this] scan Some app show ?thesis by (simp add: findClosestCluster_def)
  qed
qed

lemma length_items_absorb:
  "length (items (absorbIntoCluster s t)) = length (items t) + length (items s)"
  by (simp add: absorbIntoCluster_def Let_def)

lemma length_items_clone: "length (items (cloneCluster c)) = length (items c)"
  by (simp add: cloneCluster_def)

lemma clusterSingletonsTogether_facts:
  assumes "clusterSingletonsTogether cfg ss = Inr groups"
  shows "member_field f \<Longrightarrow> members f groups = members f ss"
    and "\<forall>c \<in> set ss. 1 \<le> length (items c) \<Longrightarrow> \<forall>c \<in> set groups. 1 \<le> length (items c)"
    and "\<forall>c \<in> set ss. populated c \<Longrightarrow> \<forall>c \<in> set groups. populated c"
proof -
  show "members f groups = members f ss" if "member_field f"
  proof (cases "length ss \<le> 1")
    case True
    with assms show ?thesis by (simp add: clusterSingletonsTogether_def)
  next
    case False
    with assms have "clusterSingletonsLoop cfg ss [] = Inr groups"
      by (simp add: clusterSingletonsTogether_def)
    from clusterSingletonsLoop_members[OF that this] show ?thesis by (simp add: members_Nil)
  qed
  show "\<forall>c \<in> set groups. 1 \<le> length (items c)" if h: "\<forall>c \<in> set ss. 1 \<le> length (items c)"
  proof (cases "length ss \<le> 1")
    case True
    with assms h show ?thesis by (simp add: clusterSingletonsTogether_def)
  next
    case False
    with assms have l: "clusterSingletonsLoop cfg ss [] = Inr groups"
      by (simp add: clusterSingletonsTogether_def)
    show ?thesis
      by (rule clusterSingletonsLoop_preserves[where P = "\<lambda>c. 1 \<le> length (items c)", OF _ _ l _ h])
         (simp_all add: length_items_absorb length_items_clone)
  qed
  show "\<forall>c \<in> set groups. populated c" if h: "\<forall>c \<in> set ss. populated c"
  proof (cases "length ss \<le> 1")
    case True
    with assms h show ?thesis by (simp add: clusterSingletonsTogether_def)
  next
    case False
    with assms have l: "clusterSingletonsLoop cfg ss [] = Inr groups"
      by (simp add: clusterSingletonsTogether_def)
    show ?thesis
      by (rule clusterSingletonsLoop_preserves[where P = populated, OF _ _ l _ h])
         (simp_all add: populated_absorbIntoCluster populated_cloneCluster)
  qed
qed

lemma clusterSingletonsTogether_total:
  "\<forall>c \<in> set ss. populated c \<Longrightarrow> \<exists>groups. clusterSingletonsTogether cfg ss = Inr groups"
  using clusterSingletonsLoop_total[of "[]" ss cfg]
  by (simp add: clusterSingletonsTogether_def)

lemma consolidatePasses_parts:
  assumes "consolidatePasses cfg cs = Inr (m, fo)"
  obtains groups where
    "clusterSingletonsTogether cfg (filter (\<lambda>c. length (items c) = 1) cs) = Inr groups"
    "absorbOrphans cfg (filter (\<lambda>c. length (items c) = 1) groups)
       (filter (\<lambda>c. length (items c) > 1) cs @ filter (\<lambda>c. length (items c) > 1) groups) [] =
     Inr (m, fo)"
  using assms by (auto simp: consolidatePasses_def Let_def split: sum.splits)

lemma consolidatePasses_shape:
  assumes "consolidatePasses cfg cs = Inr (m, fo)"
  shows "\<forall>c \<in> set m. 1 < length (items c)" and "\<forall>c \<in> set fo. length (items c) = 1"
proof -
  from assms obtain groups where
    a: "absorbOrphans cfg (filter (\<lambda>c. length (items c) = 1) groups)
       (filter (\<lambda>c. length (items c) > 1) cs @ filter (\<lambda>c. length (items c) > 1) groups) [] =
     Inr (m, fo)"
    by (rule consolidatePasses_parts)
  show "\<forall>c \<in> set m. 1 < length (items c)"
  proof (rule absorbOrphans_preserves[where P = "\<lambda>c. 1 < length (items c)", OF _ a])
    show "1 < length (items (absorbIntoCluster s t))" if "1 < length (items t)" for s t
      using that by (simp add: length_items_absorb)
    show "\<forall>c \<in> set (filter (\<lambda>c. length (items c) > 1) cs @
        filter (\<lambda>c. length (items c) > 1) groups). 1 < length (items c)"
      by auto
  qed
  from absorbOrphans_orphans[OF a] show "\<forall>c \<in> set fo. length (items c) = 1" by auto
qed

lemma filter_multi:
  assumes "\<forall>c \<in> set cs. 1 \<le> length (items c)"
  shows "filter (\<lambda>c. length (items c) > 1) cs = filter (\<lambda>c. \<not> length (items c) = 1) cs"
  by (rule filter_cong) (use assms in auto)

lemma consolidatePasses_members:
  assumes "consolidatePasses cfg cs = Inr (m, fo)" "member_field f"
    "\<forall>c \<in> set cs. items c \<noteq> []"
  shows "members f m + members f fo = members f cs"
proof -
  define one where "one = (\<lambda>c::cluster. length (items c) = 1)"
  define many where "many = (\<lambda>c::cluster. length (items c) > 1)"
  from assms(1) obtain groups where
    g: "clusterSingletonsTogether cfg (filter one cs) = Inr groups" and
    a: "absorbOrphans cfg (filter one groups) (filter many cs @ filter many groups) [] =
     Inr (m, fo)"
    unfolding one_def many_def by (rule consolidatePasses_parts)
  have cs1: "\<forall>c \<in> set cs. 1 \<le> length (items c)"
    using assms(3) by (auto simp: Suc_le_eq)
  have "\<forall>c \<in> set (filter one cs). 1 \<le> length (items c)" by (simp add: one_def)
  from clusterSingletonsTogether_facts(2)[OF g this]
  have g1: "\<forall>c \<in> set groups. 1 \<le> length (items c)" .
  have fg: "filter many groups = filter (\<lambda>c. \<not> one c) groups"
    unfolding one_def many_def by (rule filter_multi[OF g1])
  have fc: "filter many cs = filter (\<lambda>c. \<not> one c) cs"
    unfolding one_def many_def by (rule filter_multi[OF cs1])
  have e1: "members f m + members f fo =
      members f (filter many cs) + members f (filter many groups) + members f (filter one groups)"
    using absorbOrphans_members[OF assms(2) a] by (simp add: members_append members_Nil)
  have e2: "members f (filter one groups) + members f (filter many groups) = members f groups"
    unfolding fg by (rule members_filter)
  have e3: "members f groups = members f (filter one cs)"
    by (rule clusterSingletonsTogether_facts(1)[OF g assms(2)])
  have e4: "members f (filter one cs) + members f (filter many cs) = members f cs"
    unfolding fc by (rule members_filter)
  have "members f m + members f fo =
      members f (filter many cs) + (members f (filter one groups) + members f (filter many groups))"
    unfolding e1 by (simp only: ac_simps)
  also have "\<dots> = members f (filter many cs) + members f (filter one cs)"
    by (simp only: e2 e3)
  also have "\<dots> = members f cs"
    using e4 by (simp only: ac_simps)
  finally show ?thesis .
qed

lemma consolidatePasses_total:
  assumes "\<forall>c \<in> set cs. populated c"
  shows "\<exists>r. consolidatePasses cfg cs = Inr r"
proof -
  let ?one = "\<lambda>c. length (items c) = 1"
  let ?many = "\<lambda>c. length (items c) > 1"
  have s: "\<forall>c \<in> set (filter ?one cs). populated c" using assms by simp
  from clusterSingletonsTogether_total[OF s] obtain groups where
    g: "clusterSingletonsTogether cfg (filter ?one cs) = Inr groups" by blast
  from clusterSingletonsTogether_facts(3)[OF g s] have gp: "\<forall>c \<in> set groups. populated c" .
  have "\<exists>r. absorbOrphans cfg (filter ?one groups) (filter ?many cs @ filter ?many groups) [] = Inr r"
    by (rule absorbOrphans_total) (use assms gp in auto)
  with g show ?thesis by (simp add: consolidatePasses_def Let_def)
qed

lemma disposeOrphans_cases:
  "disposeOrphans cfg m fo cap = m \<and> fo = [] \<or>
   disposeOrphans cfg m fo cap = m @ fo \<or>
   disposeOrphans cfg m fo cap = m @ [createMiscCluster fo]"
  by (simp add: disposeOrphans_def)

lemma disposeOrphans_members:
  assumes "member_field f"
  shows "members f (disposeOrphans cfg m fo cap) = members f m + members f fo"
proof -
  from assms have "f (createMiscCluster fo) = concat (map f fo)" by (simp add: member_field_def)
  then have misc: "members f [createMiscCluster fo] = members f fo" by (simp add: members_def)
  from disposeOrphans_cases[of cfg m fo cap] show ?thesis
  proof (elim disjE conjE)
    assume "disposeOrphans cfg m fo cap = m" "fo = []"
    then show ?thesis by (simp add: members_Nil)
  next
    assume "disposeOrphans cfg m fo cap = m @ fo"
    then show ?thesis by (simp add: members_append)
  next
    assume "disposeOrphans cfg m fo cap = m @ [createMiscCluster fo]"
    then show ?thesis by (simp add: members_append misc)
  qed
qed

lemma consolidateSingletons_members:
  assumes "consolidateSingletons cfg cs cap = Inr out" "member_field f"
    "\<forall>c \<in> set cs. items c \<noteq> []"
  shows "members f out = members f cs"
proof (cases "length (filter (\<lambda>c. length (items c) = 1) cs) = 0")
  case True
  with assms(1) show ?thesis by (simp add: consolidateSingletons_def)
next
  case False
  with assms(1) obtain m fo where p: "consolidatePasses cfg cs = Inr (m, fo)"
    and out: "out = disposeOrphans cfg m fo cap"
    by (auto simp: consolidateSingletons_def split: sum.splits)
  from consolidatePasses_members[OF p assms(2,3)] disposeOrphans_members[OF assms(2)]
  show ?thesis by (simp add: out)
qed

lemma consolidateSingletons_total:
  assumes "\<forall>c \<in> set cs. populated c"
  shows "\<exists>out. consolidateSingletons cfg cs cap = Inr out"
  using consolidatePasses_total[OF assms, of cfg]
  by (auto simp: consolidateSingletons_def)

lemma singles_lastI:
  "(\<forall>c \<in> set A. length (items c) \<noteq> 1) \<Longrightarrow> (\<forall>c \<in> set B. length (items c) = 1) \<Longrightarrow>
   singles_last (A @ B)"
  unfolding singles_last_def by (intro exI[of _ A] exI[of _ B] conjI refl)

lemma consolidateSingletons_shape:
  assumes "consolidateSingletons cfg cs cap = Inr out"
  shows "singles_last out"
proof (cases "length (filter (\<lambda>c. length (items c) = 1) cs) = 0")
  case True
  then have "filter (\<lambda>c. length (items c) = 1) cs = []" by simp
  then have a: "\<forall>c \<in> set cs. length (items c) \<noteq> 1" by (simp only: filter_empty_conv)
  from True assms have "out = cs @ []" by (simp add: consolidateSingletons_def)
  with singles_lastI[of cs "[]", OF a] show ?thesis by simp
next
  case False
  with assms obtain m fo where p: "consolidatePasses cfg cs = Inr (m, fo)"
    and out: "out = disposeOrphans cfg m fo cap"
    by (auto simp: consolidateSingletons_def split: sum.splits)
  from consolidatePasses_shape[OF p]
  have m: "\<forall>c \<in> set m. length (items c) \<noteq> 1" and fo: "\<forall>c \<in> set fo. length (items c) = 1"
    by auto
  from disposeOrphans_cases[of cfg m fo cap]
  consider "out = m @ []" | "out = m @ fo" | "out = m @ [createMiscCluster fo]"
    unfolding out by auto
  then show ?thesis
  proof cases
    case 1
    with singles_lastI[of m "[]", OF m] show ?thesis by simp
  next
    case 2
    with singles_lastI[of m fo, OF m fo] show ?thesis by simp
  next
    case 3
    show ?thesis
    proof (cases "length (items (createMiscCluster fo)) = 1")
      case True
      then have "\<forall>c \<in> set [createMiscCluster fo]. length (items c) = 1" by simp
      from singles_lastI[OF m this] 3 show ?thesis by simp
    next
      case False
      with m have "\<forall>c \<in> set (m @ [createMiscCluster fo]). length (items c) \<noteq> 1" by simp
      from singles_lastI[of "m @ [createMiscCluster fo]" "[]", OF this] 3 show ?thesis by simp
    qed
  qed
qed

lemma metadataFrom_singles:
  "\<forall>c \<in> set B. length (items c) = 1 \<Longrightarrow> metadataFrom nameOf i B = []"
  by (induction B arbitrary: i) simp_all

lemma metadataFrom_colors:
  assumes "\<forall>c \<in> set B. length (items c) = 1"
  shows "\<forall>c \<in> set A. length (items c) \<noteq> 1 \<Longrightarrow>
     length (metadataFrom nameOf i (A @ B)) = length A \<and>
     (\<forall>k < length A. color (metadataFrom nameOf i (A @ B) ! k) = colors ! ((i + k) mod length colors))"
proof (induction A arbitrary: i)
  case Nil
  then show ?case by (simp add: metadataFrom_singles[OF assms])
next
  case (Cons a A)
  from Cons.prems have a: "length (items a) \<noteq> 1" and A: "\<forall>c \<in> set A. length (items c) \<noteq> 1"
    by simp_all
  note ih = Cons.IH[OF A, of "Suc i"]
  show ?case
  proof (intro conjI allI impI)
    show "length (metadataFrom nameOf i ((a # A) @ B)) = length (a # A)"
      using a ih by simp
    fix k assume k: "k < length (a # A)"
    show "color (metadataFrom nameOf i ((a # A) @ B) ! k) = colors ! ((i + k) mod length colors)"
    proof (cases k)
      case 0
      with a show ?thesis by simp
    next
      case (Suc k')
      with k have "k' < length A" by simp
      with ih have "color (metadataFrom nameOf (Suc i) (A @ B) ! k') =
          colors ! ((Suc i + k') mod length colors)" by blast
      with a Suc show ?thesis by simp
    qed
  qed
qed

lemma metadata_colors:
  assumes "singles_last cs" "k < length (generateClusterMetadata nameOf cs)"
  shows "color (generateClusterMetadata nameOf cs ! k) = colors ! (k mod 9)"
proof -
  from assms(1) obtain A B where cs: "cs = A @ B"
    and A: "\<forall>c \<in> set A. length (items c) \<noteq> 1" and B: "\<forall>c \<in> set B. length (items c) = 1"
    unfolding singles_last_def by blast
  have nine: "length colors = 9" by (simp add: colors_def)
  from metadataFrom_colors[OF B A, of nameOf 0] assms(2) show ?thesis
    by (simp add: generateClusterMetadata_def cs nine)
qed

lemma metadataFrom_tabIds:
  "mset (concat (map tabIds (metadataFrom nameOf i cs))) \<subseteq>#
   image_mset (\<lambda>item. tab_id (tab item)) (members items cs)"
proof (induction cs arbitrary: i)
  case Nil
  then show ?case by (simp add: members_Nil)
next
  case (Cons c cs)
  have sub: "mset (concat (map tabIds (metadataFrom nameOf (Suc i) cs))) \<subseteq>#
      image_mset (\<lambda>item. tab_id (tab item)) (members items cs)"
    by (rule Cons.IH)
  show ?case
  proof (cases "length (items c) = 1")
    case True
    have "image_mset (\<lambda>item. tab_id (tab item)) (members items cs) \<subseteq>#
        image_mset (\<lambda>item. tab_id (tab item)) (members items (c # cs))"
      by (simp add: members_Cons)
    with sub True show ?thesis by (simp add: subset_mset.order_trans)
  next
    case False
    then have "mset (concat (map tabIds (metadataFrom nameOf i (c # cs)))) =
        image_mset (\<lambda>item. tab_id (tab item)) (mset (items c)) +
        mset (concat (map tabIds (metadataFrom nameOf (Suc i) cs)))"
      by simp
    with sub show ?thesis by (simp add: members_Cons)
  qed
qed

lemma distinct_submset:
  assumes "mset ys \<subseteq># mset xs" "distinct xs"
  shows "distinct ys"
proof -
  have "count (mset ys) a = (if a \<in> set ys then 1 else 0)" for a
  proof (cases "a \<in> set ys")
    case True
    then have pos: "0 < count (mset ys) a" by simp
    from assms(1) have "count (mset ys) a \<le> count (mset xs) a" by (rule mset_subset_eq_count)
    also from assms(2) have "\<dots> \<le> 1" by (simp add: distinct_count_atmost_1)
    finally have "count (mset ys) a \<le> 1" .
    with pos have "count (mset ys) a = 1" by linarith
    with True show ?thesis by (simp only: if_True)
  next
    case False
    then show ?thesis by (simp add: count_eq_zero_iff)
  qed
  then show ?thesis by (simp only: distinct_count_atmost_1) simp
qed

lemma tabs_of_vectors: "map tab (generateEmbeddings model (extractAndEnrichTabs e tabs)) = tabs"
  by (simp add: generateEmbeddings_def extractAndEnrichTabs_def enrichTab_def Let_def comp_def)

lemma length_vectors:
  "length (generateEmbeddings model (extractAndEnrichTabs e tabs)) = length tabs"
  by (simp add: generateEmbeddings_def extractAndEnrichTabs_def)

section \<open>A run on seven tabs\<close>

text \<open>
  Seven tabs in a window 300 pixels wide: two pairs with equal embeddings and three tabs
  that resemble nothing. The capacity is 2, the loop forms the two pairs and stops, the
  three other tabs are true orphans and are put into one catch-all cluster.
\<close>

lemma ex_init: "init ex_env None = Inr ex_embed"
  by (simp add: init_def ex_env_def)

lemma ex_vectors: "generateEmbeddings ex_embed (extractAndEnrichTabs ex_env ex_tabs7) = ex_tvs7"
  by code_simp

lemma ex_matrix: "buildSimilarityMatrix default_config ex_tvs7 = ex_M7"
  by code_simp

lemma ex_capacity: "calculateGroupCapacity default_config 300 7 = 2"
  by (simp add: calculateGroupCapacity_def default_config_def)

lemma ex_threshold7: "computeAdaptiveThreshold default_config 7 tg = 0.3914"
  by (simp add: computeAdaptiveThreshold_def default_config_def)

lemma findBestMerge_indices:
  assumes "map indices cs = map indices cs'"
  shows "findBestMerge cs M = findBestMerge cs' M"
proof -
  from assms have len: "length cs = length cs'" by (rule map_eq_imp_length_eq)
  have idx: "indices (cs ! i) = indices (cs' ! i)" if "i < length cs" for i
    using that assms len by (metis nth_map)
  have "fold (considerPair M cs) ps b = fold (considerPair M cs') ps b"
    if "set ps \<subseteq> set (scanPairs (length cs))" for ps b
    using that
  proof (induction ps arbitrary: b)
    case Nil
    then show ?case by simp
  next
    case (Cons p ps)
    obtain i j where p: "p = (i, j)" by (cases p)
    with Cons.prems have "i < j" "j < length cs" by (simp_all add: scanPairs_iff)
    then have "averageLinkage M (cs ! i) (cs ! j) = averageLinkage M (cs' ! i) (cs' ! j)"
      by (simp add: averageLinkage_def idx)
    then have "considerPair M cs p b = considerPair M cs' p b"
      by (simp add: considerPair_def p)
    with Cons show ?case by simp
  qed
  then show ?thesis by (simp add: findBestMerge_def len)
qed

lemma removePair_offset:
  "2 \<le> k \<Longrightarrow>
   map snd (filter (\<lambda>(idx, _). idx \<noteq> 0 \<and> idx \<noteq> Suc 0) (zip [k..<k + length xs] xs)) = xs"
proof (induction xs arbitrary: k)
  case Nil
  then show ?case by simp
next
  case (Cons x xs)
  have "[k..<k + Suc (length xs)] = k # [Suc k..<k + Suc (length xs)]"
    by (rule upt_conv_Cons) simp
  with Cons.IH[of "Suc k"] Cons.prems show ?case by simp
qed

lemma removePair_first_two: "removePair 0 (Suc 0) (a # b # rest) = rest"
proof -
  define n where "n = length rest"
  have "[0..<Suc (Suc n)] = 0 # [Suc 0..<Suc (Suc n)]" by (rule upt_conv_Cons) simp
  also have "[Suc 0..<Suc (Suc n)] = Suc 0 # [Suc (Suc 0)..<Suc (Suc n)]"
    by (rule upt_conv_Cons) simp
  finally have u: "[0..<length (a # b # rest)] = 0 # Suc 0 # [2..<2 + length rest]"
    by (simp add: n_def numeral_2_eq_2)
  show ?thesis
    unfolding removePair_def u using removePair_offset[of 2 rest] by simp
qed

lemma ex_initial:
  "map (\<lambda>(idx, tv). initialCluster tv idx) (zip [0..<length ex_tvs7] ex_tvs7) = ex_start"
  by code_simp

lemma ex_find7: "findBestMerge ex_start ex_M7 = Some (0, Suc 0, 1)"
proof -
  have "findBestMerge (map indexOnly [[0], [1], [2], [3], [4], [5], [6]]) ex_M7 = Some (0, Suc 0, 1)"
    by code_simp
  moreover have "map indices ex_start = map indices (map indexOnly [[0], [1], [2], [3], [4], [5], [6]])"
    by (simp add: ex_start_def ex_single_def initialCluster_def indexOnly_def)
  ultimately show ?thesis using findBestMerge_indices by metis
qed

lemma ex_find6: "findBestMerge ex_after1 ex_M7 = Some (0, Suc 0, 1)"
proof -
  have "findBestMerge (map indexOnly [[2], [3], [4], [5], [6], [0, 1]]) ex_M7 = Some (0, Suc 0, 1)"
    by code_simp
  moreover have "map indices ex_after1 = map indices (map indexOnly [[2], [3], [4], [5], [6], [0, 1]])"
    by (simp add: ex_after1_def ex_single_def ex_pairA_def ex_pairB_def initialCluster_def indexOnly_def
        mergeClusters_def Let_def)
  ultimately show ?thesis using findBestMerge_indices by metis
qed

lemma ex_find5: "findBestMerge ex_after2 ex_M7 = Some (0, Suc 0, 0)"
proof -
  have "findBestMerge (map indexOnly [[4], [5], [6], [0, 1], [2, 3]]) ex_M7 = Some (0, Suc 0, 0)"
    by code_simp
  moreover have "map indices ex_after2 = map indices (map indexOnly [[4], [5], [6], [0, 1], [2, 3]])"
    by (simp add: ex_after2_def ex_single_def ex_pairA_def ex_pairB_def initialCluster_def indexOnly_def
        mergeClusters_def Let_def)
  ultimately show ?thesis using findBestMerge_indices by metis
qed

lemma ex_agglomerative: "agglomerativeClustering default_config ex_tvs7 ex_M7 2 = ex_after2"
proof -
  let ?thr = "computeAdaptiveThreshold default_config 7 2"
  have r1: "removePair 0 (Suc 0) ex_start @ [mergeClusters (ex_start ! 0) (ex_start ! Suc 0)] =
      ex_after1"
    by (simp add: ex_start_def ex_after1_def removePair_first_two ex_pairA_def ex_pairB_def)
  have r2: "removePair 0 (Suc 0) ex_after1 @ [mergeClusters (ex_after1 ! 0) (ex_after1 ! Suc 0)] =
      ex_after2"
    by (simp add: ex_after1_def ex_after2_def removePair_first_two ex_pairA_def ex_pairB_def)
  have l7: "length ex_start = 7" and l6: "length ex_after1 = 6" and l5: "length ex_after2 = 5"
    by (simp_all add: ex_start_def ex_after1_def ex_after2_def)
  have s7: "mergeStep ex_M7 2 ?thr ex_start = Some ex_after1"
    by (simp add: mergeStep_def ex_find7 ex_threshold7 r1 l7)
  have s6: "mergeStep ex_M7 2 ?thr ex_after1 = Some ex_after2"
    by (simp add: mergeStep_def ex_find6 ex_threshold7 r2 l6)
  have s5: "mergeStep ex_M7 2 ?thr ex_after2 = None"
    by (simp add: mergeStep_def ex_find5 ex_threshold7 l5)
  have n: "length ex_tvs7 = 7" by (simp add: ex_tvs7_def)
  have "mergeLoop ex_M7 2 ?thr ex_start = ex_after2"
    by (simp add: mergeLoop.simps[of ex_M7 2 ?thr] s7 s6 s5)
  then show ?thesis
    unfolding agglomerativeClustering_def Let_def ex_initial by (simp only: n)
qed

lemma cosineSimilarity3:
  "cosineSimilarity [a1, a2, a3] [b1, b2, b3] = a1 * b1 + a2 * b2 + a3 * b3"
  by (simp add: cosineSimilarity_def)

lemma ex_embeddings:
  "embedding (ex_tvs7 ! 0) = [1, 0, 0]" "embedding (ex_tvs7 ! 1) = [1, 0, 0]"
  "embedding (ex_tvs7 ! 2) = [0, 1, 0]" "embedding (ex_tvs7 ! 3) = [0, 1, 0]"
  "embedding (ex_tvs7 ! 4) = [0, 0, 1]" "embedding (ex_tvs7 ! 5) = [-1, 0, 0]"
  "embedding (ex_tvs7 ! 6) = [0, -1, 0]"
  by (simp_all add: ex_tvs7_def ex_tv_def)

lemma ex_domains:
  "domain (ex_tvs7 ! 4) = ''e.com''" "domain (ex_tvs7 ! 5) = ''f.com''"
  "domain (ex_tvs7 ! 6) = ''g.com''"
  by (simp_all add: ex_tvs7_def ex_tv_def)

lemma ex_single_fields:
  "items (ex_single k) = [ex_tvs7 ! k]"
  "centroid (ex_single k) = Some (embedding (ex_tvs7 ! k))"
  "domains (ex_single k) = {domain (ex_tvs7 ! k)}"
  "isMisc (ex_single k) = False"
  by (simp_all add: ex_single_def initialCluster_def)

lemma clone_fields:
  "items (cloneCluster c) = items c" "centroid (cloneCluster c) = centroid c"
  "domains (cloneCluster c) = domains c" "isMisc (cloneCluster c) = False"
  by (simp_all add: cloneCluster_def)

lemma centroid_pair_same:
  "computeCentroid [[a, b, c], [a, b, c]] =
     Some (l2_normalize (mean_vec [[a, b, c], [a, b, c]]))"
  by (rule computeCentroid_is_normalized_mean[where d = 3]) simp_all

lemma ex_pair_fields:
  "items ex_pairA = [ex_tvs7 ! 0, ex_tvs7 ! 1]" "items ex_pairB = [ex_tvs7 ! 2, ex_tvs7 ! 3]"
  "isMisc ex_pairA = False" "isMisc ex_pairB = False"
  "centroid ex_pairA = Some [1, 0, 0]"
  "centroid ex_pairB = Some [0, 1, 0]"
proof -
  show "items ex_pairA = [ex_tvs7 ! 0, ex_tvs7 ! 1]" "items ex_pairB = [ex_tvs7 ! 2, ex_tvs7 ! 3]"
    "isMisc ex_pairA = False" "isMisc ex_pairB = False"
    by (simp_all add: ex_pairA_def ex_pairB_def mergeClusters_def Let_def ex_single_def
        initialCluster_def)
  have m: "mean_vec [[a, b, c], [a, b, c]] = [a, b, c]" for a b c :: real
    by (simp add: mean_vec_def vec_add_def)
  have n1: "l2_normalize [1, 0, 0] = [1, 0, 0]" and n2: "l2_normalize [0, 1, 0] = [0, 1, 0]"
    by (simp_all add: l2_normalize_def l2_norm_def)
  have e: "embeddings ex_pairA = [[1, 0, 0], [1, 0, 0]]"
    "embeddings ex_pairB = [[0, 1, 0], [0, 1, 0]]"
    by (simp_all add: ex_pairA_def ex_pairB_def mergeClusters_def Let_def ex_single_def
        initialCluster_def ex_tvs7_def ex_tv_def)
  have c: "centroid (mergeClusters c1 c2) = computeCentroid (embeddings (mergeClusters c1 c2))"
    for c1 c2 by (simp add: mergeClusters_def Let_def)
  show "centroid ex_pairA = Some [1, 0, 0]"
    unfolding ex_pairA_def c unfolding ex_pairA_def[symmetric] e
    by (simp only: centroid_pair_same m n1)
  show "centroid ex_pairB = Some [0, 1, 0]"
    unfolding ex_pairB_def c unfolding ex_pairB_def[symmetric] e
    by (simp only: centroid_pair_same m n2)
qed

lemmas ex_fields = ex_single_fields clone_fields ex_pair_fields ex_embeddings ex_domains
  cosineSimilarity3 centroidSimilarity_def

lemma ex_pass1:
  "clusterSingletonsTogether default_config [ex_single 4, ex_single 5, ex_single 6] =
     Inr [cloneCluster (ex_single 4), cloneCluster (ex_single 5), cloneCluster (ex_single 6)]"
  by (simp add: clusterSingletonsTogether_def ex_fields default_config_def)

lemma ex_pass2:
  "absorbOrphans default_config
     [cloneCluster (ex_single 4), cloneCluster (ex_single 5), cloneCluster (ex_single 6)]
     [ex_pairA, ex_pairB] [] =
   Inr ([ex_pairA, ex_pairB],
        [cloneCluster (ex_single 4), cloneCluster (ex_single 5), cloneCluster (ex_single 6)])"
  by (simp add: findClosestCluster_def ex_fields default_config_def)

lemma ex_passes:
  "consolidatePasses default_config ex_after2 =
   Inr ([ex_pairA, ex_pairB],
        [cloneCluster (ex_single 4), cloneCluster (ex_single 5), cloneCluster (ex_single 6)])"
  by (simp add: consolidatePasses_def ex_after2_def ex_single_fields(1) ex_pair_fields(1,2)
      clone_fields(1) ex_pass1 ex_pass2 del: absorbOrphans.simps)

lemma ex_consolidated:
  "consolidateSingletons default_config ex_after2 2 = Inr [ex_pairA, ex_pairB, ex_misc]"
  by (simp add: consolidateSingletons_def ex_passes disposeOrphans_def ex_misc_def)
     (simp add: ex_after2_def ex_single_fields(1) default_config_def)

lemma ex_misc_fields:
  "items ex_misc = [ex_tvs7 ! 4, ex_tvs7 ! 5, ex_tvs7 ! 6]" "isMisc ex_misc = True"
  by (simp_all add: ex_misc_def createMiscCluster_def clone_fields ex_single_fields)

lemma ex_ids:
  "tab_id (tab (ex_tvs7 ! 0)) = 10" "tab_id (tab (ex_tvs7 ! Suc 0)) = 11"
  "tab_id (tab (ex_tvs7 ! 2)) = 12" "tab_id (tab (ex_tvs7 ! 3)) = 13"
  "tab_id (tab (ex_tvs7 ! 4)) = 14" "tab_id (tab (ex_tvs7 ! 5)) = 15"
  "tab_id (tab (ex_tvs7 ! 6)) = 16"
  by code_simp+

lemma ex_metadata:
  "generateClusterMetadata (\<lambda>c. ''GROUP'') [ex_pairA, ex_pairB, ex_misc] =
     [\<lparr>name = ''GROUP'', color = ''blue'', tabIds = [10, 11]\<rparr>,
      \<lparr>name = ''GROUP'', color = ''green'', tabIds = [12, 13]\<rparr>,
      \<lparr>name = ''MISC'', color = ''yellow'', tabIds = [14, 15, 16]\<rparr>]"
  by (simp add: generateClusterMetadata_def ex_pair_fields ex_misc_fields ex_ids colors_def)

lemma ex_run:
  "clusterTabs ex_env default_config None ex_tabs7 300 =
     Inr [\<lparr>name = ''GROUP'', color = ''blue'', tabIds = [10, 11]\<rparr>,
          \<lparr>name = ''GROUP'', color = ''green'', tabIds = [12, 13]\<rparr>,
          \<lparr>name = ''MISC'', color = ''yellow'', tabIds = [14, 15, 16]\<rparr>]"
proof -
  have n: "length ex_tabs7 = 7" by (simp add: ex_tabs7_def)
  have g: "generateClusterName ex_env ex_embed = (\<lambda>c. ''GROUP'')" by (simp add: ex_env_def)
  show ?thesis
    by (simp add: clusterTabs_def ex_init n Let_def ex_vectors ex_matrix ex_capacity
        ex_agglomerative ex_consolidated g ex_metadata)
qed

lemma consolidatePasses_orphans_need_singletons:
  assumes "consolidatePasses cfg cs = Inr (m, fo)" "fo \<noteq> []"
  shows "filter (\<lambda>c. length (items c) = 1) cs \<noteq> []"
proof
  assume e: "filter (\<lambda>c. length (items c) = 1) cs = []"
  from assms(1) obtain groups where
    g: "clusterSingletonsTogether cfg (filter (\<lambda>c. length (items c) = 1) cs) = Inr groups" and
    a: "absorbOrphans cfg (filter (\<lambda>c. length (items c) = 1) groups)
       (filter (\<lambda>c. length (items c) > 1) cs @ filter (\<lambda>c. length (items c) > 1) groups) [] =
     Inr (m, fo)"
    by (rule consolidatePasses_parts)
  from g e have "groups = []" by (simp add: clusterSingletonsTogether_def)
  with absorbOrphans_orphans[OF a] have "fo = []" by simp
  with assms(2) show False by simp
qed

lemma length_metadataFrom: "length (metadataFrom nameOf i cs) \<le> length cs"
proof (induction cs arbitrary: i)
  case Nil
  then show ?case by simp
next
  case (Cons c cs)
  from Cons[of "Suc i"] show ?case by (simp add: le_SucI)
qed

section \<open>Consolidation keeps every index\<close>

text \<open>
  Claim C10. \<^verbatim>\<open>consolidateSingletons\<close>, applied to the clusters that
  \<^verbatim>\<open>agglomerativeClustering\<close> makes of \<open>n\<close> tabs, returns a cluster list in which every
  index \<open>0..n-1\<close> occurs exactly once; and on any list of clusters that each have a member
  and a centroid it returns a list with the same indices, each as often as before.
\<close>

theorem consolidateSingletons_partition:
  "(\<exists>out. consolidateSingletons cfg (agglomerativeClustering cfg tvs M tg) cap = Inr out \<and>
          mset (concat (map indices out)) = mset [0..<length tvs]) \<and>
   ((\<forall>c \<in> set cs. populated c) \<longrightarrow>
    (\<exists>out. consolidateSingletons cfg cs cap = Inr out \<and>
           mset (concat (map indices out)) = mset (concat (map indices cs))))"
proof (intro conjI impI)
  let ?cs = "agglomerativeClustering cfg tvs M tg"
  have p: "\<forall>c \<in> set ?cs. populated c" by (rule agglomerativeClustering_populated)
  from consolidateSingletons_total[OF p] obtain out where
    out: "consolidateSingletons cfg ?cs cap = Inr out" by blast
  from p have "\<forall>c \<in> set ?cs. items c \<noteq> []" by (simp add: populated_def)
  from consolidateSingletons_members[OF out member_field_indices this]
  have "members indices out = mset [0..<length tvs]"
    by (simp add: agglomerativeClustering_members)
  with out show "\<exists>out. consolidateSingletons cfg ?cs cap = Inr out \<and>
      mset (concat (map indices out)) = mset [0..<length tvs]"
    by (auto simp: members_def)
next
  assume p: "\<forall>c \<in> set cs. populated c"
  from consolidateSingletons_total[OF p] obtain out where
    out: "consolidateSingletons cfg cs cap = Inr out" by blast
  from p have "\<forall>c \<in> set cs. items c \<noteq> []" by (simp add: populated_def)
  from consolidateSingletons_members[OF out member_field_indices this] out
  show "\<exists>out. consolidateSingletons cfg cs cap = Inr out \<and>
      mset (concat (map indices out)) = mset (concat (map indices cs))"
    by (auto simp: members_def)
qed

lemma ex_populated: "\<forall>c \<in> set ex_after2. populated c"
  using agglomerativeClustering_populated[of default_config ex_tvs7 ex_M7 2]
  by (simp only: ex_agglomerative)

theorem consolidateSingletons_partition_witness:
  "consolidateSingletons default_config ex_after2 2 = Inr [ex_pairA, ex_pairB, ex_misc] \<and>
   mset (concat (map indices [ex_pairA, ex_pairB, ex_misc])) = mset (concat (map indices ex_after2)) \<and>
   mset (concat (map indices [ex_pairA, ex_pairB, ex_misc])) = mset [0..<length ex_tvs7]"
proof -
  from consolidateSingletons_partition[of default_config ex_tvs7 ex_M7 2 2 ex_after2]
  have a: "\<exists>out. consolidateSingletons default_config ex_after2 2 = Inr out \<and>
      mset (concat (map indices out)) = mset [0..<length ex_tvs7]"
    and b: "\<exists>out. consolidateSingletons default_config ex_after2 2 = Inr out \<and>
      mset (concat (map indices out)) = mset (concat (map indices ex_after2))"
    using ex_populated by (simp_all only: ex_agglomerative)
  from a have "mset (concat (map indices [ex_pairA, ex_pairB, ex_misc])) = mset [0..<length ex_tvs7]"
    by (simp only: ex_consolidated) simp
  moreover from b have "mset (concat (map indices [ex_pairA, ex_pairB, ex_misc])) =
      mset (concat (map indices ex_after2))"
    by (simp only: ex_consolidated) simp
  ultimately show ?thesis using ex_consolidated by (intro conjI)
qed

section \<open>Identifiers and colours of the output\<close>

lemma clusterTabs_init_Inl:
  "init e extractor = Inl err \<Longrightarrow> clusterTabs e cfg extractor tabs screenWidth = Inl err"
  by (simp add: clusterTabs_def)

lemma clusterTabs_loaded_ids_once:
  assumes "distinct (map tab_id tabs)" "init e extractor = Inr model"
  shows "\<exists>res. clusterTabs e cfg extractor tabs screenWidth = Inr res \<and>
           distinct (concat (map tabIds res))"
proof (cases "length tabs \<le> 2")
  case True
  then show ?thesis by (simp add: clusterTabs_def assms(2))
next
  case False
  define tvs where "tvs = generateEmbeddings model (extractAndEnrichTabs e tabs)"
  define cap where "cap = calculateGroupCapacity cfg screenWidth (length tabs)"
  define cs where "cs = agglomerativeClustering cfg tvs (buildSimilarityMatrix cfg tvs) cap"
  have p: "\<forall>c \<in> set cs. populated c" unfolding cs_def by (rule agglomerativeClustering_populated)
  from consolidateSingletons_total[OF p] obtain out where
    out: "consolidateSingletons cfg cs cap = Inr out" by blast
  from p have "\<forall>c \<in> set cs. items c \<noteq> []" by (simp add: populated_def)
  from consolidateSingletons_members[OF out member_field_items this]
  have m: "members items out = mset tvs"
    by (simp add: cs_def agglomerativeClustering_members)
  define res where "res = generateClusterMetadata (generateClusterName e model) out"
  have run: "clusterTabs e cfg extractor tabs screenWidth = Inr res"
    using False out
    by (simp add: clusterTabs_def assms(2) Let_def tvs_def[symmetric] cap_def[symmetric]
        cs_def[symmetric] res_def)
  have "mset (concat (map tabIds res)) \<subseteq># image_mset (\<lambda>item. tab_id (tab item)) (mset tvs)"
    unfolding res_def generateClusterMetadata_def m[symmetric] by (rule metadataFrom_tabIds)
  also have "image_mset (\<lambda>item. tab_id (tab item)) (mset tvs) = mset (map tab_id (map tab tvs))"
    by (simp add: comp_def)
  also have "map tab tvs = tabs" unfolding tvs_def by (rule tabs_of_vectors)
  finally have "distinct (concat (map tabIds res))"
    using assms(1) by (rule distinct_submset)
  with run show ?thesis by blast
qed

text \<open>
  Claim C1. For tabs with pairwise different identifiers, no identifier occurs twice in
  the \<^verbatim>\<open>tabIds\<close> of a list that \<^verbatim>\<open>clusterTabs\<close> returns, neither in two entries nor
  within one; and \<^verbatim>\<open>clusterTabs\<close> returns such a list whenever \<^verbatim>\<open>init\<close> has a model,
  the one error of a run being that of the model's loader.
\<close>

theorem clusterTabs_ids_once:
  assumes "distinct (map tab_id tabs)"
  shows "(\<forall>res. clusterTabs e cfg extractor tabs screenWidth = Inr res \<longrightarrow>
            distinct (concat (map tabIds res))) \<and>
         (\<forall>model. init e extractor = Inr model \<longrightarrow>
            (\<exists>res. clusterTabs e cfg extractor tabs screenWidth = Inr res \<and>
                   distinct (concat (map tabIds res)))) \<and>
         (\<forall>err. clusterTabs e cfg extractor tabs screenWidth = Inl err \<longrightarrow>
            err = ModelLoadError \<and> init e extractor = Inl ModelLoadError)"
proof (cases "init e extractor")
  case (Inl err)
  then have "err = ModelLoadError"
    by (simp add: init_def split: option.splits)
  with Inl show ?thesis by (simp add: clusterTabs_init_Inl)
next
  case (Inr model)
  from clusterTabs_loaded_ids_once[OF assms Inr, of cfg screenWidth] Inr
  show ?thesis by auto
qed

theorem clusterTabs_ids_once_witness:
  "distinct (map tab_id ex_tabs7) \<and>
   init ex_env None = Inr ex_embed \<and>
   clusterTabs ex_env default_config None ex_tabs7 300 =
     Inr [\<lparr>name = ''GROUP'', color = ''blue'', tabIds = [10, 11]\<rparr>,
          \<lparr>name = ''GROUP'', color = ''green'', tabIds = [12, 13]\<rparr>,
          \<lparr>name = ''MISC'', color = ''yellow'', tabIds = [14, 15, 16]\<rparr>] \<and>
   distinct (concat (map tabIds
         [\<lparr>name = ''GROUP'', color = ''blue'', tabIds = [10, 11]\<rparr>,
          \<lparr>name = ''GROUP'', color = ''green'', tabIds = [12, 13]\<rparr>,
          \<lparr>name = ''MISC'', color = ''yellow'', tabIds = [14, 15, 16]\<rparr>]))"
proof -
  have d: "distinct (map tab_id ex_tabs7)" by (simp add: ex_tabs7_def)
  from clusterTabs_ids_once[OF d, of ex_env default_config None 300]
  have "distinct (concat (map tabIds
         [\<lparr>name = ''GROUP'', color = ''blue'', tabIds = [10, 11]\<rparr>,
          \<lparr>name = ''GROUP'', color = ''green'', tabIds = [12, 13]\<rparr>,
          \<lparr>name = ''MISC'', color = ''yellow'', tabIds = [14, 15, 16]\<rparr>]))"
    using ex_run by blast
  with d ex_init ex_run show ?thesis by (intro conjI)
qed

text \<open>
  Claim C9. In the list \<^verbatim>\<open>clusterTabs\<close> returns, the entry at position \<open>k\<close> has the
  colour at position \<open>k mod 9\<close> of the palette of nine colours. (The source indexes the
  palette by the position in the cluster list, one-item clusters included; these all come
  last in what \<^verbatim>\<open>consolidateSingletons\<close> returns.)
\<close>

theorem clusterTabs_colors:
  assumes "clusterTabs e cfg extractor tabs screenWidth = Inr res" "k < length res"
  shows "color (res ! k) = colors ! (k mod 9) \<and> length colors = 9"
proof (cases "init e extractor")
  case (Inl err)
  with assms(1) show ?thesis by (simp add: clusterTabs_init_Inl)
next
  case (Inr model)
  show ?thesis
  proof (cases "length tabs \<le> 2")
    case True
    with assms Inr show ?thesis by (simp add: clusterTabs_def)
  next
    case False
    with assms(1) Inr obtain cs cap out where out: "consolidateSingletons cfg cs cap = Inr out"
      and res: "res = generateClusterMetadata (generateClusterName e model) out"
      by (auto simp: clusterTabs_def Let_def split: sum.splits)
    from consolidateSingletons_shape[OF out] assms(2) res
    have "color (res ! k) = colors ! (k mod 9)" by (simp add: metadata_colors)
    then show ?thesis by (simp add: colors_def)
  qed
qed

theorem clusterTabs_colors_witness:
  "clusterTabs ex_env default_config None ex_tabs7 300 =
     Inr [\<lparr>name = ''GROUP'', color = ''blue'', tabIds = [10, 11]\<rparr>,
          \<lparr>name = ''GROUP'', color = ''green'', tabIds = [12, 13]\<rparr>,
          \<lparr>name = ''MISC'', color = ''yellow'', tabIds = [14, 15, 16]\<rparr>] \<and>
   colors ! (2 mod 9) = ''yellow''"
proof -
  have "(2::nat) < length [\<lparr>name = ''GROUP'', color = ''blue'', tabIds = [10, 11]\<rparr>,
          \<lparr>name = ''GROUP'', color = ''green'', tabIds = [12, 13]\<rparr>,
          \<lparr>name = ''MISC'', color = ''yellow'', tabIds = [14, 15, 16 :: int]\<rparr>]" by simp
  from clusterTabs_colors[OF ex_run this] have "colors ! (2 mod 9) = ''yellow''" by simp
  with ex_run show ?thesis by (intro conjI)
qed

section \<open>Capacity\<close>

text \<open>
  Claim C4, at the run on seven tabs: the capacity is 2, three true orphans remain after
  passes 1 and 2, which is \<^verbatim>\<open>MIN_ORPHANS_FOR_MISC\<close>, and the output has three clusters.
\<close>

theorem orphans_capacity_counterexample:
  "calculateGroupCapacity default_config 300 (length ex_tabs7) = 2 \<and>
   consolidatePasses default_config
     (agglomerativeClustering default_config
        (generateEmbeddings ex_embed (extractAndEnrichTabs ex_env ex_tabs7))
        (buildSimilarityMatrix default_config
           (generateEmbeddings ex_embed (extractAndEnrichTabs ex_env ex_tabs7))) 2) =
     Inr ([ex_pairA, ex_pairB],
          [cloneCluster (ex_single 4), cloneCluster (ex_single 5), cloneCluster (ex_single 6)]) \<and>
   MIN_ORPHANS_FOR_MISC default_config = 3 \<and>
   clusterTabs ex_env default_config None ex_tabs7 300 =
     Inr [\<lparr>name = ''GROUP'', color = ''blue'', tabIds = [10, 11]\<rparr>,
          \<lparr>name = ''GROUP'', color = ''green'', tabIds = [12, 13]\<rparr>,
          \<lparr>name = ''MISC'', color = ''yellow'', tabIds = [14, 15, 16]\<rparr>] \<and>
   \<not> int (length
         [\<lparr>name = ''GROUP'', color = ''blue'', tabIds = [10, 11]\<rparr>,
          \<lparr>name = ''GROUP'', color = ''green'', tabIds = [12, 13]\<rparr>,
          \<lparr>name = ''MISC'', color = ''yellow'', tabIds = [14, 15, 16]\<rparr>])
       \<le> calculateGroupCapacity default_config 300 (length ex_tabs7)"
proof -
  have n: "length ex_tabs7 = 7" by (simp add: ex_tabs7_def)
  have m: "MIN_ORPHANS_FOR_MISC default_config = 3" by (simp add: default_config_def)
  show ?thesis
    by (simp add: n ex_capacity ex_vectors ex_matrix ex_agglomerative ex_passes m ex_run)
qed

text \<open>
  Claim C4, amended. When at least one and at least \<^verbatim>\<open>MIN_ORPHANS_FOR_MISC\<close> true
  orphans remain after passes 1 and 2, \<^verbatim>\<open>consolidateSingletons\<close> returns either the
  multi-item clusters and the orphans, within capacity, or the multi-item clusters and one
  catch-all cluster: the number of clusters, and the number of entries of the final
  output, is at most the larger of the capacity and the number of multi-item clusters
  plus one.
\<close>

theorem orphans_capacity_bound:
  assumes "consolidatePasses cfg cs = Inr (m, fo)" "fo \<noteq> []"
    "MIN_ORPHANS_FOR_MISC cfg \<le> length fo"
  shows "\<exists>out. consolidateSingletons cfg cs cap = Inr out \<and>
           (out = m @ fo \<and> int (length out) \<le> cap \<or> out = m @ [createMiscCluster fo]) \<and>
           int (length out) \<le> max cap (int (length m) + 1) \<and>
           int (length (generateClusterMetadata nameOf out)) \<le> max cap (int (length m) + 1)"
proof -
  define out where "out = disposeOrphans cfg m fo cap"
  from consolidatePasses_orphans_need_singletons[OF assms(1,2)] assms(1)
  have r: "consolidateSingletons cfg cs cap = Inr out"
    by (simp add: consolidateSingletons_def out_def)
  have shape: "out = m @ fo \<and> int (length out) \<le> cap \<or> out = m @ [createMiscCluster fo]"
    using assms(2,3) unfolding out_def disposeOrphans_def by auto
  then have len: "int (length out) \<le> max cap (int (length m) + 1)" by auto
  have "length (generateClusterMetadata nameOf out) \<le> length out"
    unfolding generateClusterMetadata_def by (rule length_metadataFrom)
  with len have "int (length (generateClusterMetadata nameOf out)) \<le> max cap (int (length m) + 1)"
    by linarith
  with r shape len show ?thesis by blast
qed

theorem orphans_capacity_bound_witness:
  "consolidatePasses default_config ex_after2 =
     Inr ([ex_pairA, ex_pairB],
          [cloneCluster (ex_single 4), cloneCluster (ex_single 5), cloneCluster (ex_single 6)]) \<and>
   consolidateSingletons default_config ex_after2 2 = Inr [ex_pairA, ex_pairB, ex_misc] \<and>
   int (length [ex_pairA, ex_pairB, ex_misc]) \<le> max 2 (int (length [ex_pairA, ex_pairB]) + 1)"
proof -
  have f: "[cloneCluster (ex_single 4), cloneCluster (ex_single 5), cloneCluster (ex_single 6)] \<noteq> []"
    by simp
  have k: "MIN_ORPHANS_FOR_MISC default_config \<le>
      length [cloneCluster (ex_single 4), cloneCluster (ex_single 5), cloneCluster (ex_single 6)]"
    by (simp add: default_config_def)
  from orphans_capacity_bound[OF ex_passes f k, of 2 "\<lambda>c. ''GROUP''"]
  have "int (length [ex_pairA, ex_pairB, ex_misc]) \<le> max 2 (int (length [ex_pairA, ex_pairB]) + 1)"
    by (simp only: ex_consolidated) blast
  with ex_passes ex_consolidated show ?thesis by (intro conjI)
qed

section \<open>The entry point\<close>

text \<open>
  Claim C7, on an engine that has no model yet and whose model cannot be loaded:
  \<^verbatim>\<open>clusterTabs\<close> awaits \<^verbatim>\<open>init\<close> before it looks at the number of tabs, so the call
  with no tab at all, and the call with two tabs, reject with the error of the loader
  and return no list.
\<close>

theorem clusterTabs_too_few_counterexample:
  "length ([] :: tab list) \<le> 2 \<and>
   clusterTabs ex_env_offline default_config None [] 1920 = Inl ModelLoadError \<and>
   clusterTabs ex_env_offline default_config None [] 1920 \<noteq> Inr [] \<and>
   length (take 2 ex_tabs7) \<le> 2 \<and>
   clusterTabs ex_env_offline default_config None (take 2 ex_tabs7) 1920 = Inl ModelLoadError"
  by (simp add: clusterTabs_def init_def ex_env_offline_def ex_tabs7_def)

text \<open>
  Claim C7, amended. A call of \<^verbatim>\<open>clusterTabs\<close> on an engine without a model whose
  model cannot be loaded rejects with the error of the loader, for any number of tabs.
  In every other case, a model being held or loaded by \<^verbatim>\<open>init\<close>, the call with at
  most two tabs returns the empty list, whatever the collaborators, the configuration and
  the screen width are: the result does not depend on what the page script, the
  \<^verbatim>\<open>URL\<close> constructor or the model would give for these tabs.
\<close>

theorem clusterTabs_too_few:
  "(extractor = None \<and> pipeline e = None \<longrightarrow>
      clusterTabs e cfg extractor tabs screenWidth = Inl ModelLoadError) \<and>
   (length tabs \<le> 2 \<longrightarrow>
      clusterTabs e cfg extractor tabs screenWidth =
        (if extractor = None \<and> pipeline e = None then Inl ModelLoadError else Inr []))"
  by (simp add: clusterTabs_def init_def split: option.splits)

theorem clusterTabs_too_few_witness:
  "clusterTabs ex_env default_config None (take 2 ex_tabs7) 1920 = Inr [] \<and>
   clusterTabs ex_env_offline default_config (Some ex_embed) (take 2 ex_tabs7) 1920 = Inr [] \<and>
   clusterTabs ex_env_offline default_config None ex_tabs7 1920 = Inl ModelLoadError"
proof -
  have n: "length (take 2 ex_tabs7) \<le> 2" by simp
  have p: "pipeline ex_env = Some ex_embed" "pipeline ex_env_offline = None"
    by (simp_all add: ex_env_def ex_env_offline_def)
  from clusterTabs_too_few[of None ex_env default_config "take 2 ex_tabs7" 1920] n p
  have a: "clusterTabs ex_env default_config None (take 2 ex_tabs7) 1920 = Inr []"
    by simp
  from clusterTabs_too_few[of "Some ex_embed" ex_env_offline default_config
      "take 2 ex_tabs7" 1920] n
  have b: "clusterTabs ex_env_offline default_config (Some ex_embed) (take 2 ex_tabs7) 1920 =
      Inr []"
    by simp
  from clusterTabs_too_few[of None ex_env_offline default_config ex_tabs7 1920] p
  have c: "clusterTabs ex_env_offline default_config None ex_tabs7 1920 = Inl ModelLoadError"
    by simp
  from a b c show ?thesis by (intro conjI)
qed

end
